theory Spec2Isabelle
  imports Main "HOL-Library.Sublist"
begin

section \<open>Data model of command/v6/login\_command.go\<close>

text \<open>
  The login command talks to four collaborators through interfaces: the terminal
  (\<open>command.UI\<close>), the configuration store (\<open>command.Config\<close>), the actor
  (\<open>LoginActor\<close>, built by an \<open>ActorMaker\<close>) and the version checker
  (\<open>VersionChecker\<close>, built by a \<open>CheckerMaker\<close>). None of them is implemented in
  the file; the model takes their answers from an environment record and writes every
  call to a chronological log, so that the order and the number of calls can be read
  from the final state.
\<close>

text \<open>
  Modelled from the spec: \<open>coreconfig.AuthPromptType\<close> is declared outside the file;
  the spec's PromptKind has the two kinds PlainText and Secret.
\<close>

datatype AuthPromptType = AuthPromptTypeText | AuthPromptTypePassword

record AuthPrompt =
  Type :: AuthPromptType
  DisplayName :: string

text \<open>\<open>v3action.Organization\<close>, of which the command reads GUID and Name.\<close>

record Organization =
  GUID :: string
  Name :: string

record TargetSettings =
  URL :: string
  SkipSSLValidation :: bool

text \<open>The fields of \<open>url.URL\<close> that decide how a scheme, host and path are printed.\<close>

record URL =
  Scheme :: string
  Opaque :: string
  Host :: string
  Path :: string

datatype GrantType = GrantTypePassword | GrantTypeClientCredentials | GrantTypeRefreshToken

text \<open>
  Go \<open>error\<close> values. \<open>EOF\<close> is the sentinel \<open>io.EOF\<close> (compared by identity in
  the source, so it differs from \<open>ErrorString ''EOF''\<close>), \<open>ErrorString\<close> is
  \<open>errors.New\<close>, \<open>AccountLockedError\<close> is the struct \<open>uaa.AccountLockedError\<close>,
  and \<open>OtherError\<close> is any other error a collaborator returns.
\<close>

datatype error =
    UnrefactoredCommandError
  | ArgumentCombinationError "string list"
  | ErrorString string
  | EOF
  | AccountLockedError string
  | OtherError string

text \<open>What \<open>Execute\<close> does: it returns an error or nil, or it panics.\<close>

datatype outcome = Returns "error option" | Panics

text \<open>A table cell of \<open>showStatus\<close>: a translated template with its variables, or a plain string.\<close>

datatype cell = TranslateText string "(string \<times> string) list" | Plain string

text \<open>
  One entry of the log per call to a collaborator; a call that answers carries its
  answer.
\<close>

datatype event =
    EvDisplayWarning string
  | EvDisplayWarningError error
  | EvDisplayWarnings "string list"
  | EvDisplayText string "(string \<times> string) list"
  | EvDisplayTextWithFlavor string "(string \<times> string) list"
  | EvDisplayNewline
  | EvDisplayOK
  | EvDisplayTextPrompt string "error + string"
  | EvDisplayPasswordPrompt string "error + string"
  | EvDisplayTextMenu "string list" string "error + string"
  | EvDisplayKeyValueTable string "cell list list" nat
  | EvSetTarget TargetSettings "error option"
  | EvNewActor bool "error option"
  | EvGetLoginPrompts
  | EvAuthenticate "string \<rightharpoonup> string" string GrantType "error option"
  | EvGetOrganizationByName string
  | EvGetOrganizations
  | EvSetOrganizationInformation string string
  | EvNewVersionChecker bool "error option"
  | EvSetMinCLIVersion string
  | EvWarnIfCLIVersionBelowAPIDefinedMinimum string "error option"

text \<open>
  The collaborators. A method the command calls once in a run is a value; a method it
  calls several times (the prompts, \<open>Authenticate\<close>) is a function of the log so far,
  which lets it answer differently on every call. \<open>Actor_GetLoginPrompts\<close> is the
  Go map in the order the \<open>range\<close> statement of \<open>authenticate\<close> visits it; its keys
  are looked up with \<open>map_of\<close>. \<open>url_Parse\<close> and \<open>url_String\<close> are
  \<open>url.Parse\<close> and \<open>(*URL).String\<close> of the Go library (\<open>None\<close>: a nil URL with an
  error). \<open>command_WarnIfCLIVersionBelowAPIDefinedMinimum\<close> is a function of package
  \<open>command\<close> that is not in the file.
\<close>

record env =
  Config_ExperimentalLogin :: bool
  Config_Target :: string
  Config_SkipSSLValidation :: bool
  Config_UAAGrantType :: string
  Config_APIVersion :: string
  Config_CurrentUserName :: "string \<times> error option"
  Config_TargetedOrganizationName :: string
  Config_BinaryName :: string
  UI_DisplayTextPrompt :: "event list \<Rightarrow> string \<Rightarrow> error + string"
  UI_DisplayPasswordPrompt :: "event list \<Rightarrow> string \<Rightarrow> error + string"
  UI_DisplayTextMenu :: "event list \<Rightarrow> string list \<Rightarrow> string \<Rightarrow> error + string"
  Actor_SetTarget :: "TargetSettings \<Rightarrow> error option"
  ActorMaker_NewActor :: "error option"
  Actor_GetLoginPrompts :: "(string \<times> AuthPrompt) list"
  Actor_Authenticate :: "event list \<Rightarrow> (string \<rightharpoonup> string) \<Rightarrow> error option"
  Actor_GetOrganizationByName :: "string \<Rightarrow> Organization \<times> string list \<times> error option"
  Actor_GetOrganizations :: "Organization list \<times> string list \<times> error option"
  CheckerMaker_NewVersionChecker :: "error option"
  Checker_MinCLIVersion :: string
  Checker_CloudControllerAPIVersion :: string
  command_WarnIfCLIVersionBelowAPIDefinedMinimum :: "string \<Rightarrow> error option"
  url_Parse :: "string \<Rightarrow> URL option"
  url_String :: "URL \<Rightarrow> string"

text \<open>The flags of \<open>LoginCommand\<close>; \<open>Execute\<close> overwrites three of them.\<close>

record LoginCommand =
  APIEndpoint :: string
  Organization :: string
  Password :: string
  Space :: string
  SkipSSLValidation :: bool
  SSO :: bool
  SSOPasscode :: string
  Username :: string

record state =
  cmd :: LoginCommand
  log :: "event list"

definition maxLoginTries :: nat where
  "maxLoginTries = 3"

section \<open>Calls to the collaborators\<close>

definition emit :: "event \<Rightarrow> state \<Rightarrow> state" where
  "emit ev s = s\<lparr>log := log s @ [ev]\<rparr>"

definition DisplayTextPrompt :: "env \<Rightarrow> string \<Rightarrow> state \<Rightarrow> (error + string) \<times> state" where
  "DisplayTextPrompt e name s =
     (let r = UI_DisplayTextPrompt e (log s) name in (r, emit (EvDisplayTextPrompt name r) s))"

definition DisplayPasswordPrompt :: "env \<Rightarrow> string \<Rightarrow> state \<Rightarrow> (error + string) \<times> state" where
  "DisplayPasswordPrompt e name s =
     (let r = UI_DisplayPasswordPrompt e (log s) name in (r, emit (EvDisplayPasswordPrompt name r) s))"

definition DisplayTextMenu :: "env \<Rightarrow> string list \<Rightarrow> string \<Rightarrow> state \<Rightarrow> (error + string) \<times> state" where
  "DisplayTextMenu e choices name s =
     (let r = UI_DisplayTextMenu e (log s) choices name in (r, emit (EvDisplayTextMenu choices name r) s))"

definition Authenticate ::
  "env \<Rightarrow> (string \<rightharpoonup> string) \<Rightarrow> string \<Rightarrow> GrantType \<Rightarrow> state \<Rightarrow> error option \<times> state" where
  "Authenticate e credentials origin grantType s =
     (let r = Actor_Authenticate e (log s) credentials
      in (r, emit (EvAuthenticate credentials origin grantType r) s))"

text \<open>\<open>prompts[key].DisplayName\<close>: a missing key reads the zero value.\<close>

definition promptDisplayName :: "(string \<times> AuthPrompt) list \<Rightarrow> string \<Rightarrow> string" where
  "promptDisplayName prompts key =
     (case map_of prompts key of None \<Rightarrow> [] | Some p \<Rightarrow> DisplayName p)"

section \<open>passwordPrompts (lines 338-367)\<close>

text \<open>The \<open>range passwordKeys\<close> loop of lines 353-359.\<close>

fun passwordPrompts_keys ::
  "env \<Rightarrow> (string \<times> AuthPrompt) list \<Rightarrow> (string \<rightharpoonup> string) \<Rightarrow> string list \<Rightarrow> state
     \<Rightarrow> (error + (string \<rightharpoonup> string)) \<times> state" where
  "passwordPrompts_keys e prompts credentials [] s = (Inr credentials, s)"
| "passwordPrompts_keys e prompts credentials (key # keys) s =
     (case DisplayPasswordPrompt e (promptDisplayName prompts key) (emit EvDisplayNewline s) of
        (Inl err, s1) \<Rightarrow> (Inl err, s1)
      | (Inr v, s1) \<Rightarrow> passwordPrompts_keys e prompts (credentials(key \<mapsto> v)) keys s1)"

text \<open>The \<open>password\<close> block of lines 341-351.\<close>

definition passwordPrompts_password ::
  "env \<Rightarrow> (string \<times> AuthPrompt) list \<Rightarrow> (string \<rightharpoonup> string) \<Rightarrow> state
     \<Rightarrow> (error + (string \<rightharpoonup> string)) \<times> state" where
  "passwordPrompts_password e prompts credentials s =
     (case map_of prompts ''password'' of
        None \<Rightarrow> (Inr credentials, s)
      | Some passPrompt \<Rightarrow>
          if Password (cmd s) \<noteq> [] then
            (Inr (credentials(''password'' \<mapsto> Password (cmd s))),
             s\<lparr>cmd := (cmd s)\<lparr>Password := []\<rparr>\<rparr>)
          else
            (case DisplayPasswordPrompt e (DisplayName passPrompt) s of
               (Inl err, s1) \<Rightarrow> (Inl err, s1)
             | (Inr v, s1) \<Rightarrow> (Inr (credentials(''password'' \<mapsto> v)), s1)))"

text \<open>
  \<open>passwordPrompts\<close> writes into the caller's \<open>credentials\<close> map and returns a copy of
  it; the value returned here is both the copy and the caller's map after the call.
\<close>

definition passwordPrompts ::
  "env \<Rightarrow> (string \<times> AuthPrompt) list \<Rightarrow> (string \<rightharpoonup> string) \<Rightarrow> string list \<Rightarrow> state
     \<Rightarrow> (error + (string \<rightharpoonup> string)) \<times> state" where
  "passwordPrompts e prompts credentials passwordKeys s =
     (case passwordPrompts_password e prompts credentials s of
        (Inl err, s1) \<Rightarrow> (Inl err, s1)
      | (Inr credentials1, s1) \<Rightarrow> passwordPrompts_keys e prompts credentials1 passwordKeys s1)"

section \<open>authenticate (lines 216-284)\<close>

text \<open>The \<open>username\<close> block of lines 220-231.\<close>

definition authenticate_username ::
  "env \<Rightarrow> (string \<times> AuthPrompt) list \<Rightarrow> state \<Rightarrow> (error + (string \<rightharpoonup> string)) \<times> state" where
  "authenticate_username e prompts s =
     (case map_of prompts ''username'' of
        None \<Rightarrow> (Inr Map.empty, s)
      | Some v \<Rightarrow>
          if Type v = AuthPromptTypeText \<and> Username (cmd s) \<noteq> [] then
            (Inr [''username'' \<mapsto> Username (cmd s)], s)
          else
            (case DisplayTextPrompt e (DisplayName v) s of
               (Inl err, s1) \<Rightarrow> (Inl err, s1)
             | (Inr name, s1) \<Rightarrow> (Inr [''username'' \<mapsto> name], emit EvDisplayNewline s1)))"

text \<open>The \<open>range prompts\<close> loop of lines 233-251, over the map's entries in the order visited.\<close>

fun authenticate_range ::
  "env \<Rightarrow> (string \<times> AuthPrompt) list \<Rightarrow> (string \<rightharpoonup> string) \<Rightarrow> string list \<Rightarrow> state
     \<Rightarrow> (error + (string \<rightharpoonup> string) \<times> string list) \<times> state" where
  "authenticate_range e [] credentials passwordKeys s = (Inr (credentials, passwordKeys), s)"
| "authenticate_range e ((key, prompt) # rest) credentials passwordKeys s =
     (if Type prompt = AuthPromptTypePassword then
        (if key = ''passcode'' \<or> key = ''password'' then
           authenticate_range e rest credentials passwordKeys s
         else authenticate_range e rest credentials (passwordKeys @ [key]) s)
      else if key = ''username'' then authenticate_range e rest credentials passwordKeys s
      else
        (case DisplayTextPrompt e (DisplayName prompt) s of
           (Inl err, s1) \<Rightarrow> (Inl err, s1)
         | (Inr v, s1) \<Rightarrow>
             authenticate_range e rest (credentials(key \<mapsto> v)) passwordKeys
               (emit EvDisplayNewline s1)))"

text \<open>
  The \<open>for i := 0; i < maxLoginTries; i++\<close> loop of lines 254-279. The body does not
  read \<open>i\<close>; the first argument counts the iterations that are left, and \<open>err\<close> is the
  variable of that name.
\<close>

fun authenticate_loop ::
  "nat \<Rightarrow> env \<Rightarrow> (string \<times> AuthPrompt) list \<Rightarrow> string list \<Rightarrow> error option
     \<Rightarrow> (string \<rightharpoonup> string) \<Rightarrow> state \<Rightarrow> error option \<times> state" where
  "authenticate_loop 0 e prompts passwordKeys err credentials s = (err, s)"
| "authenticate_loop (Suc n) e prompts passwordKeys err credentials s =
     (case passwordPrompts e prompts credentials passwordKeys s of
        (Inl err1, s1) \<Rightarrow> (Some err1, s1)
      | (Inr promptedCredentials, s1) \<Rightarrow>
          (case Authenticate e promptedCredentials [] GrantTypePassword
                  (emit (EvDisplayText ''Authenticating...'' []) s1) of
             (Some err1, s2) \<Rightarrow>
               (let s3 = emit EvDisplayNewline (emit (EvDisplayWarningError err1) s2) in
                case err1 of
                  AccountLockedError m \<Rightarrow> (Some err1, s3)
                | _ \<Rightarrow> authenticate_loop n e prompts passwordKeys (Some err1) promptedCredentials s3)
           | (None, s2) \<Rightarrow> (None, emit EvDisplayNewline (emit EvDisplayOK s2))))"

definition authenticate :: "env \<Rightarrow> state \<Rightarrow> error option \<times> state" where
  "authenticate e s =
     (let prompts = Actor_GetLoginPrompts e in
      case authenticate_username e prompts (emit EvGetLoginPrompts s) of
        (Inl err, s1) \<Rightarrow> (Some err, s1)
      | (Inr credentials, s1) \<Rightarrow>
          (case authenticate_range e prompts credentials [] s1 of
             (Inl err, s2) \<Rightarrow> (Some err, s2)
           | (Inr (credentials2, passwordKeys), s2) \<Rightarrow>
               authenticate_loop maxLoginTries e prompts passwordKeys None credentials2 s2))"

section \<open>authenticateSSO (lines 286-325)\<close>

text \<open>The \<open>passcode\<close> block of lines 292-300.\<close>

definition authenticateSSO_passcode ::
  "env \<Rightarrow> (string \<times> AuthPrompt) list \<Rightarrow> (string \<rightharpoonup> string) \<Rightarrow> state
     \<Rightarrow> (error + (string \<rightharpoonup> string)) \<times> state" where
  "authenticateSSO_passcode e prompts credentials s =
     (if length (SSOPasscode (cmd s)) > 0 then
        (Inr (credentials(''passcode'' \<mapsto> SSOPasscode (cmd s))),
         s\<lparr>cmd := (cmd s)\<lparr>SSOPasscode := []\<rparr>\<rparr>)
      else
        (case DisplayPasswordPrompt e (promptDisplayName prompts ''passcode'') s of
           (Inl err, s1) \<Rightarrow> (Inl err, s1)
         | (Inr v, s1) \<Rightarrow> (Inr (credentials(''passcode'' \<mapsto> v)), s1)))"

text \<open>The loop of lines 291-320, in the same shape as \<open>authenticate_loop\<close>.\<close>

fun authenticateSSO_loop ::
  "nat \<Rightarrow> env \<Rightarrow> (string \<times> AuthPrompt) list \<Rightarrow> error option \<Rightarrow> (string \<rightharpoonup> string) \<Rightarrow> state
     \<Rightarrow> error option \<times> state" where
  "authenticateSSO_loop 0 e prompts err credentials s = (err, s)"
| "authenticateSSO_loop (Suc n) e prompts err credentials s =
     (case authenticateSSO_passcode e prompts credentials s of
        (Inl err1, s1) \<Rightarrow> (Some err1, s1)
      | (Inr credentials1, s1) \<Rightarrow>
          (case Authenticate e credentials1 [] GrantTypePassword
                  (emit (EvDisplayText ''Authenticating...'' []) s1) of
             (Some err1, s2) \<Rightarrow>
               authenticateSSO_loop n e prompts (Some err1) credentials1
                 (emit EvDisplayNewline (emit (EvDisplayWarningError err1) s2))
           | (None, s2) \<Rightarrow> (None, emit EvDisplayNewline (emit EvDisplayOK s2))))"

definition authenticateSSO :: "env \<Rightarrow> state \<Rightarrow> error option \<times> state" where
  "authenticateSSO e s =
     authenticateSSO_loop maxLoginTries e (Actor_GetLoginPrompts e) None Map.empty
       (emit EvGetLoginPrompts s)"

section \<open>Organization selection\<close>

definition emptyOrg :: Organization where
  "emptyOrg = \<lparr>GUID = [], Name = []\<rparr>"

text \<open>\<open>promptChosenOrg\<close> (lines 429-453).\<close>

definition promptChosenOrg ::
  "env \<Rightarrow> Organization list \<Rightarrow> state \<Rightarrow> (error + Organization) \<times> state" where
  "promptChosenOrg e orgs s =
     (case DisplayTextMenu e (map Name orgs) ''Org'' (emit (EvDisplayText ''Select an org:'' []) s) of
        (Inl err, s1) \<Rightarrow> if err = EOF then (Inr emptyOrg, s1) else (Inl err, s1)
      | (Inr chosenOrgName, s1) \<Rightarrow>
          (case find (\<lambda>org. Name org = chosenOrgName) orgs of
             Some org \<Rightarrow> (Inr org, s1)
           | None \<Rightarrow> (Inl (ErrorString ''Error Choosing Organization''), s1)))"

text \<open>Lines 181-207 of \<open>Execute\<close>: the organization named by \<open>-o\<close>, or one of those visible.\<close>

definition Execute_organization :: "env \<Rightarrow> state \<Rightarrow> error option \<times> state" where
  "Execute_organization e s =
     (if Organization (cmd s) \<noteq> [] then
        (case Actor_GetOrganizationByName e (Organization (cmd s)) of
           (org, warnings, err) \<Rightarrow>
             (let s1 = emit (EvDisplayWarnings warnings)
                         (emit (EvGetOrganizationByName (Organization (cmd s))) s) in
              case err of
                Some err1 \<Rightarrow> (Some err1, s1)
              | None \<Rightarrow> (None, emit (EvSetOrganizationInformation (GUID org) (Name org)) s1)))
      else
        (case Actor_GetOrganizations e of
           (orgs, warnings, err) \<Rightarrow>
             (let s1 = emit (EvDisplayWarnings warnings) (emit EvGetOrganizations s) in
              case err of
                Some err1 \<Rightarrow> (Some err1, s1)
              | None \<Rightarrow>
                  if length orgs = 1 then
                    (None, emit (EvSetOrganizationInformation (GUID (hd orgs)) (Name (hd orgs))) s1)
                  else if length orgs > 1 then
                    (case promptChosenOrg e orgs s1 of
                       (Inl err1, s2) \<Rightarrow> (Some err1, s2)
                     | (Inr chosenOrg, s2) \<Rightarrow>
                         if chosenOrg \<noteq> emptyOrg then
                           (None, emit (EvSetOrganizationInformation (GUID chosenOrg) (Name chosenOrg)) s2)
                         else (None, s2))
                  else (None, s1))))"

section \<open>Version check, client reload, status\<close>

text \<open>\<open>checkMinCLIVersion\<close> (lines 327-336).\<close>

definition checkMinCLIVersion :: "env \<Rightarrow> state \<Rightarrow> error option \<times> state" where
  "checkMinCLIVersion e s =
     (let err = CheckerMaker_NewVersionChecker e;
          s1 = emit (EvNewVersionChecker True err) s in
      case err of
        Some err1 \<Rightarrow> (Some err1, s1)
      | None \<Rightarrow>
          (let s2 = emit (EvSetMinCLIVersion (Checker_MinCLIVersion e)) s1;
               apiVersion = Checker_CloudControllerAPIVersion e;
               r = command_WarnIfCLIVersionBelowAPIDefinedMinimum e apiVersion
           in (r, emit (EvWarnIfCLIVersionBelowAPIDefinedMinimum apiVersion r) s2)))"

text \<open>\<open>reloadActor\<close> (lines 369-378).\<close>

definition reloadActor :: "env \<Rightarrow> state \<Rightarrow> error option \<times> state" where
  "reloadActor e s =
     (let err = ActorMaker_NewActor e in (err, emit (EvNewActor True err) s))"

text \<open>\<open>strings.TrimRight\<close>: the string without its trailing characters that are in the cutset.\<close>

definition TrimRight :: "string \<Rightarrow> string \<Rightarrow> string" where
  "TrimRight s cutset = rev (dropWhile (\<lambda>c. c \<in> set cutset) (rev s))"

definition displayNotLoggedIn :: "env \<Rightarrow> state \<Rightarrow> state" where
  "displayNotLoggedIn e s =
     emit (EvDisplayText ''Not logged in. Use '{{.CFLoginCommand}}' to log in.''
             [(''CFLoginCommand'', Config_BinaryName e @ '' login'')]) s"

definition displayNotTargetted :: "env \<Rightarrow> state \<Rightarrow> state" where
  "displayNotTargetted e s =
     emit (EvDisplayText
             (''No org or space targeted, use '{{.CFTargetCommand}} -o ORG -s SPACE'' @ [CHR 0x27])
             [(''CFTargetCommand'', Config_BinaryName e @ '' target'')]) s"

text \<open>\<open>showStatus\<close> (lines 380-410): one key-value table on each of its three paths.\<close>

definition showStatus :: "env \<Rightarrow> state \<Rightarrow> state" where
  "showStatus e s =
     (let tableContent =
            [[TranslateText ''API endpoint:'' [],
              TranslateText ''{{.APIEndpoint}} (API version: {{.APIVersion}})''
                [(''APIEndpoint'', TrimRight (APIEndpoint (cmd s)) ''/''),
                 (''APIVersion'', Config_APIVersion e)]]];
          user = fst (Config_CurrentUserName e);
          err = snd (Config_CurrentUserName e)
      in if user = [] \<or> err \<noteq> None then
           displayNotLoggedIn e (emit (EvDisplayKeyValueTable [] tableContent 3) s)
         else
           (let tableContent1 = tableContent @ [[TranslateText ''User:'' [], Plain user]];
                orgName = Config_TargetedOrganizationName e
            in if orgName = [] then
                 displayNotTargetted e (emit (EvDisplayKeyValueTable [] tableContent1 3) s)
               else
                 emit EvDisplayNewline
                   (emit (EvDisplayKeyValueTable []
                            (tableContent1 @ [[TranslateText ''Org:'' [], Plain orgName]]) 3) s)))"

section \<open>Execute (lines 116-214)\<close>

text \<open>Lines 122-137: the endpoint from the flag, from the configuration, or from a prompt.\<close>

definition Execute_endpoint :: "env \<Rightarrow> state \<Rightarrow> error option \<times> state" where
  "Execute_endpoint e s =
     (if APIEndpoint (cmd s) \<noteq> [] then
        (None, emit (EvDisplayTextWithFlavor ''API endpoint: {{.APIEndpoint}}''
                       [(''APIEndpoint'', APIEndpoint (cmd s))]) s)
      else if Config_Target e \<noteq> [] then
        (None, emit (EvDisplayTextWithFlavor ''API endpoint: {{.APIEndpoint}}''
                       [(''APIEndpoint'', Config_Target e)])
                 (s\<lparr>cmd := (cmd s)\<lparr>APIEndpoint := Config_Target e\<rparr>\<rparr>))
      else
        (case DisplayTextPrompt e ''API endpoint'' s of
           (Inl err, s1) \<Rightarrow> (Some err, s1)
         | (Inr apiEndpoint, s1) \<Rightarrow> (None, s1\<lparr>cmd := (cmd s1)\<lparr>APIEndpoint := apiEndpoint\<rparr>\<rparr>)))"

text \<open>
  Lines 141-150: the target settings. The error of \<open>url.Parse\<close> is dropped, so a string
  the library rejects leaves \<open>endpoint\<close> nil and the read of \<open>endpoint.Scheme\<close> panics:
  that is \<open>None\<close> here.
\<close>

definition Execute_settings :: "env \<Rightarrow> state \<Rightarrow> TargetSettings option" where
  "Execute_settings e s =
     (let strippedEndpoint = TrimRight (APIEndpoint (cmd s)) ''/'' in
      case url_Parse e strippedEndpoint of
        None \<Rightarrow> None
      | Some endpoint \<Rightarrow>
          (let endpoint1 = (if Scheme endpoint = [] then endpoint\<lparr>Scheme := ''https''\<rparr> else endpoint)
           in Some \<lparr>URL = url_String e endpoint1,
                    TargetSettings.SkipSSLValidation =
                      (Config_SkipSSLValidation e \<or> LoginCommand.SkipSSLValidation (cmd s))\<rparr>))"

text \<open>Lines 177-213: what follows the authentication, given its error \<open>authErr\<close>.\<close>

definition Execute_afterAuth :: "env \<Rightarrow> error option \<times> state \<Rightarrow> error option \<times> state" where
  "Execute_afterAuth e r =
     (case r of
        (Some authErr, s) \<Rightarrow> (Some (ErrorString ''Unable to authenticate.''), s)
      | (None, s) \<Rightarrow>
          (case Execute_organization e s of
             (Some err, s1) \<Rightarrow> (Some err, s1)
           | (None, s1) \<Rightarrow>
               (case checkMinCLIVersion e s1 of
                  (Some err, s2) \<Rightarrow> (Some err, s2)
                | (None, s2) \<Rightarrow> (None, s2))))"

text \<open>Lines 163-213: the part of \<open>Execute\<close> that runs after \<open>defer cmd.showStatus()\<close>.\<close>

definition Execute_deferred :: "env \<Rightarrow> state \<Rightarrow> error option \<times> state" where
  "Execute_deferred e s =
     (if Config_UAAGrantType e = ''client_credentials'' then
        (Some (ErrorString
           ''Service account currently logged in. Use 'cf logout' to log out service account and try again.''), s)
      else if SSO (cmd s) = True \<or> SSOPasscode (cmd s) \<noteq> [] then
        (if SSO (cmd s) \<and> SSOPasscode (cmd s) \<noteq> [] then
           (Some (ArgumentCombinationError [''--sso-passcode'', ''--sso'']), s)
         else Execute_afterAuth e (authenticateSSO e s))
      else Execute_afterAuth e (authenticate e s))"

text \<open>
  \<open>Execute\<close>. The deferred \<open>showStatus\<close> runs on every return of the part that follows
  line 161, and on none before it.
\<close>

definition Execute :: "env \<Rightarrow> state \<Rightarrow> outcome \<times> state" where
  "Execute e s =
     (if \<not> Config_ExperimentalLogin e then (Returns (Some UnrefactoredCommandError), s)
      else
        (case Execute_endpoint e
                (emit (EvDisplayWarning
                   ''Using experimental login command, some behavior may be different'') s) of
           (Some err, s1) \<Rightarrow> (Returns (Some err), s1)
         | (None, s1) \<Rightarrow>
             (let s2 = emit EvDisplayNewline s1 in
              case Execute_settings e s2 of
                None \<Rightarrow> (Panics, s2)
              | Some settings \<Rightarrow>
                  (let err = Actor_SetTarget e settings;
                       s3 = emit (EvSetTarget settings err) s2 in
                   case err of
                     Some err1 \<Rightarrow> (Returns (Some err1), s3)
                   | None \<Rightarrow>
                       (case reloadActor e s3 of
                          (Some err1, s4) \<Rightarrow> (Returns (Some err1), s4)
                        | (None, s4) \<Rightarrow>
                            (case Execute_deferred e s4 of
                               (r, s5) \<Rightarrow> (Returns r, showStatus e s5)))))))"

section \<open>The URL library on plain endpoints\<close>

text \<open>
  \<open>url.Parse\<close> and \<open>(*URL).String\<close> belong to the Go library, not to the repository.
  The two functions below follow the library on the strings made of ASCII letters,
  digits and the characters \<open>. - _ ~ + : /\<close>, which need no escaping and carry no
  query, fragment or user information. \<open>go_url_Parse\<close> answers \<open>None\<close> where the
  library returns an error, and also on every string it does not model: a character
  outside that class, or a scheme followed by a single slash. They serve as the
  environment of the examples; \<open>Execute\<close> itself takes any parser.
\<close>

definition lowerLetters :: string where
  "lowerLetters = ''abcdefghijklmnopqrstuvwxyz''"

definition upperLetters :: string where
  "upperLetters = ''ABCDEFGHIJKLMNOPQRSTUVWXYZ''"

definition digits :: string where
  "digits = ''0123456789''"

definition ToLower :: "string \<Rightarrow> string" where
  "ToLower s =
     map (\<lambda>c. case map_of (zip upperLetters lowerLetters) c of None \<Rightarrow> c | Some l \<Rightarrow> l) s"

text \<open>
  \<open>getScheme\<close> of net/url: \<open>pre\<close> is \<open>rawURL[:i]\<close>, the third argument is
  \<open>rawURL[i:]\<close>. \<open>None\<close> is the error "missing protocol scheme".
\<close>

fun getScheme_from :: "string \<Rightarrow> string \<Rightarrow> string \<Rightarrow> (string \<times> string) option" where
  "getScheme_from rawURL pre [] = Some ([], rawURL)"
| "getScheme_from rawURL pre (c # cs) =
     (if c \<in> set lowerLetters \<or> c \<in> set upperLetters then getScheme_from rawURL (pre @ [c]) cs
      else if c \<in> set digits \<or> c = CHR ''+'' \<or> c = CHR ''-'' \<or> c = CHR ''.'' then
        (if pre = [] then Some ([], rawURL) else getScheme_from rawURL (pre @ [c]) cs)
      else if c = CHR '':'' then (if pre = [] then None else Some (pre, cs))
      else Some ([], rawURL))"

definition getScheme :: "string \<Rightarrow> (string \<times> string) option" where
  "getScheme rawURL = getScheme_from rawURL [] rawURL"

definition plainChar :: "char \<Rightarrow> bool" where
  "plainChar c \<longleftrightarrow> c \<in> set lowerLetters \<or> c \<in> set upperLetters \<or> c \<in> set digits \<or> c \<in> set ''.-_~+:/''"

text \<open>\<open>validOptionalPort\<close>: empty, or a colon followed by digits only.\<close>

definition validOptionalPort :: "string \<Rightarrow> bool" where
  "validOptionalPort port =
     (case port of [] \<Rightarrow> True | c # cs \<Rightarrow> c = CHR '':'' \<and> list_all (\<lambda>d. d \<in> set digits) cs)"

text \<open>The text from the last colon of the host on (empty when the host has no colon).\<close>

definition colonPort :: "string \<Rightarrow> string" where
  "colonPort host =
     (if CHR '':'' \<in> set host then CHR '':'' # rev (takeWhile (\<lambda>c. c \<noteq> CHR '':'') (rev host)) else [])"

definition go_url_Parse :: "string \<Rightarrow> URL option" where
  "go_url_Parse rawURL =
     (if \<not> list_all plainChar rawURL then None
      else
        (case getScheme rawURL of
           None \<Rightarrow> None
         | Some (scheme0, rest) \<Rightarrow>
             (let scheme = ToLower scheme0 in
              if take 1 rest \<noteq> ''/'' then
                (if scheme \<noteq> [] then
                   Some \<lparr>Scheme = scheme, Opaque = rest, Host = [], Path = []\<rparr>
                 else if CHR '':'' \<in> set (takeWhile (\<lambda>c. c \<noteq> CHR ''/'') rest) then None
                 else Some \<lparr>Scheme = scheme, Opaque = [], Host = [], Path = rest\<rparr>)
              else if (scheme \<noteq> [] \<or> take 3 rest \<noteq> ''///'') \<and> take 2 rest = ''//'' then
                (let authority = takeWhile (\<lambda>c. c \<noteq> CHR ''/'') (drop 2 rest);
                     rest1 = dropWhile (\<lambda>c. c \<noteq> CHR ''/'') (drop 2 rest)
                 in if \<not> validOptionalPort (colonPort authority) then None
                    else Some \<lparr>Scheme = scheme, Opaque = [], Host = authority, Path = rest1\<rparr>)
              else if scheme \<noteq> [] then None
              else Some \<lparr>Scheme = scheme, Opaque = [], Host = [], Path = rest\<rparr>)))"

definition go_url_String :: "URL \<Rightarrow> string" where
  "go_url_String u =
     (let buf = (if Scheme u \<noteq> [] then Scheme u @ '':'' else [])
      in if Opaque u \<noteq> [] then buf @ Opaque u
         else
           (let buf1 =
                  (if Scheme u \<noteq> [] \<or> Host u \<noteq> [] then
                     buf @ (if Host u \<noteq> [] \<or> Path u \<noteq> [] then ''//'' else []) @ Host u
                   else buf);
                buf2 =
                  (if Path u \<noteq> [] \<and> take 1 (Path u) \<noteq> ''/'' \<and> Host u \<noteq> [] then buf1 @ ''/''
                   else buf1);
                buf3 =
                  (if buf2 = [] \<and> CHR '':'' \<in> set (takeWhile (\<lambda>c. c \<noteq> CHR ''/'') (Path u))
                   then ''./'' else buf2)
            in buf3 @ Path u))"

section \<open>Reading the log\<close>

text \<open>The events a run adds to the log, and the runs that add only events of one kind.\<close>

definition since :: "state \<Rightarrow> state \<Rightarrow> event list" where
  "since s s' = drop (length (log s)) (log s')"

definition adds :: "(event \<Rightarrow> bool) \<Rightarrow> state \<Rightarrow> state \<Rightarrow> bool" where
  "adds P s s' \<longleftrightarrow> prefix (log s) (log s') \<and> list_all P (since s s')"

text \<open>The events of credential collection: the two prompts and the separator.\<close>

fun collectEvent :: "event \<Rightarrow> bool" where
  "collectEvent (EvDisplayTextPrompt n r) = True"
| "collectEvent (EvDisplayPasswordPrompt n r) = True"
| "collectEvent EvDisplayNewline = True"
| "collectEvent _ = False"

text \<open>The events of \<open>authenticate\<close> and \<open>authenticateSSO\<close>.\<close>

fun authEvent :: "event \<Rightarrow> bool" where
  "authEvent (EvAuthenticate c ori g r) = True"
| "authEvent (EvDisplayText t vs) = True"
| "authEvent (EvDisplayWarningError err) = True"
| "authEvent EvDisplayOK = True"
| "authEvent EvGetLoginPrompts = True"
| "authEvent ev = collectEvent ev"

text \<open>The events of the part of \<open>Execute\<close> that runs under the deferred \<open>showStatus\<close>.\<close>

fun deferredEvent :: "event \<Rightarrow> bool" where
  "deferredEvent (EvDisplayTextMenu cs n r) = True"
| "deferredEvent (EvDisplayWarnings ws) = True"
| "deferredEvent (EvGetOrganizationByName n) = True"
| "deferredEvent EvGetOrganizations = True"
| "deferredEvent (EvSetOrganizationInformation g n) = True"
| "deferredEvent (EvNewVersionChecker b r) = True"
| "deferredEvent (EvSetMinCLIVersion v) = True"
| "deferredEvent (EvWarnIfCLIVersionBelowAPIDefinedMinimum v r) = True"
| "deferredEvent ev = authEvent ev"

text \<open>The events of \<open>Execute\<close> up to the call of \<open>SetTarget\<close>.\<close>

fun targetEvent :: "event \<Rightarrow> bool" where
  "targetEvent (EvDisplayWarning w) = True"
| "targetEvent (EvDisplayTextWithFlavor t vs) = True"
| "targetEvent (EvDisplayTextPrompt n r) = (n = ''API endpoint'')"
| "targetEvent EvDisplayNewline = True"
| "targetEvent (EvSetTarget settings r) = True"
| "targetEvent _ = False"

definition experimentalWarning :: string where
  "experimentalWarning = ''Using experimental login command, some behavior may be different''"

fun isStatusTable :: "event \<Rightarrow> bool" where
  "isStatusTable (EvDisplayKeyValueTable t rows n) = True"
| "isStatusTable _ = False"

text \<open>
  The events of credential collection and submission: the prompt schema is read, a
  secret is asked for, a text other than the endpoint is asked for, or credentials are
  submitted.
\<close>

fun credentialEvent :: "event \<Rightarrow> bool" where
  "credentialEvent EvGetLoginPrompts = True"
| "credentialEvent (EvDisplayPasswordPrompt n r) = True"
| "credentialEvent (EvAuthenticate c ori g r) = True"
| "credentialEvent (EvDisplayTextPrompt n r) = (n \<noteq> ''API endpoint'')"
| "credentialEvent _ = False"

text \<open>The answers of the calls to \<open>Authenticate\<close>, in order.\<close>

fun authResult :: "event \<Rightarrow> error option list" where
  "authResult (EvAuthenticate c ori g r) = [r]"
| "authResult _ = []"

definition authResults :: "event list \<Rightarrow> error option list" where
  "authResults evs = concat (map authResult evs)"

fun isAccountLocked :: "error option \<Rightarrow> bool" where
  "isAccountLocked (Some (AccountLockedError m)) = True"
| "isAccountLocked _ = False"

text \<open>
  The attempts of a loop: every answer but the last is a failure, and with
  \<open>stopOnLock\<close> a failure that is not an account lock.
\<close>

definition retried :: "bool \<Rightarrow> error option \<Rightarrow> bool" where
  "retried stopOnLock r \<longleftrightarrow> r \<noteq> None \<and> \<not> (stopOnLock \<and> isAccountLocked r)"

definition attemptsWithin :: "bool \<Rightarrow> nat \<Rightarrow> error option list \<Rightarrow> bool" where
  "attemptsWithin stopOnLock n rs \<longleftrightarrow> length rs \<le> n \<and> list_all (retried stopOnLock) (butlast rs)"

text \<open>A read of a credential that failed, and the logs in which only the last event is one.\<close>

fun readFailure :: "event \<Rightarrow> error option" where
  "readFailure (EvDisplayTextPrompt n (Inl err)) = Some err"
| "readFailure (EvDisplayPasswordPrompt n (Inl err)) = Some err"
| "readFailure _ = None"

definition noReadFailure :: "event list \<Rightarrow> bool" where
  "noReadFailure evs = list_all (\<lambda>ev. readFailure ev = None) evs"

definition failsLast :: "error \<Rightarrow> event list \<Rightarrow> bool" where
  "failsLast err evs \<longleftrightarrow>
     evs \<noteq> [] \<and> noReadFailure (butlast evs) \<and> readFailure (last evs) = Some err"

definition collected :: "error + 'a \<Rightarrow> event list \<Rightarrow> bool" where
  "collected res evs = (case res of Inl err \<Rightarrow> failsLast err evs | Inr x \<Rightarrow> noReadFailure evs)"

definition stopsAtFailure :: "error option \<Rightarrow> event list \<Rightarrow> bool" where
  "stopsAtFailure r evs \<longleftrightarrow>
     noReadFailure (butlast evs) \<and>
     (evs = [] \<or> readFailure (last evs) = None \<or> r = readFailure (last evs))"

text \<open>
  The order of the prompts. A log is read as the sequence of its text prompts, secret
  prompts and submissions; the spec's order puts the user name first, then the other
  texts, then for every attempt the password before the other secrets.
\<close>

datatype label = LText string | LSecret string | LAuth

fun labelOf :: "event \<Rightarrow> label list" where
  "labelOf (EvDisplayTextPrompt n r) = [LText n]"
| "labelOf (EvDisplayPasswordPrompt n r) = [LSecret n]"
| "labelOf (EvAuthenticate c ori g r) = [LAuth]"
| "labelOf _ = []"

definition labels :: "event list \<Rightarrow> label list" where
  "labels evs = concat (map labelOf evs)"

definition usernameLabels :: "(string \<times> AuthPrompt) list \<Rightarrow> LoginCommand \<Rightarrow> label list" where
  "usernameLabels prompts c =
     (case map_of prompts ''username'' of
        None \<Rightarrow> []
      | Some v \<Rightarrow>
          if Type v = AuthPromptTypeText \<and> Username c \<noteq> [] then [] else [LText (DisplayName v)])"

definition textLabels :: "(string \<times> AuthPrompt) list \<Rightarrow> label list" where
  "textLabels prompts =
     map (\<lambda>kp. LText (DisplayName (snd kp)))
       (filter (\<lambda>kp. Type (snd kp) \<noteq> AuthPromptTypePassword \<and> fst kp \<noteq> ''username'') prompts)"

definition otherSecretKeys :: "(string \<times> AuthPrompt) list \<Rightarrow> string list" where
  "otherSecretKeys prompts =
     map fst
       (filter (\<lambda>kp. Type (snd kp) = AuthPromptTypePassword \<and> fst kp \<noteq> ''passcode''
                      \<and> fst kp \<noteq> ''password'') prompts)"






text \<open>
  The attempts of a log: for every submission, the secret prompts since the submission
  before it (name and answer), and the credentials submitted.
\<close>

fun secretStep :: "event \<Rightarrow> ((string \<times> (error + string)) + (string \<rightharpoonup> string)) list" where
  "secretStep (EvDisplayPasswordPrompt n r) = [Inl (n, r)]"
| "secretStep (EvAuthenticate c ori g r) = [Inr c]"
| "secretStep _ = []"

definition secretSteps ::
  "event list \<Rightarrow> ((string \<times> (error + string)) + (string \<rightharpoonup> string)) list" where
  "secretSteps evs = concat (map secretStep evs)"

fun splitAttempts :: "'a list \<Rightarrow> ('a + 'b) list \<Rightarrow> ('a list \<times> 'b) list" where
  "splitAttempts acc [] = []"
| "splitAttempts acc (Inl a # xs) = splitAttempts (acc @ [a]) xs"
| "splitAttempts acc (Inr b # xs) = (acc, b) # splitAttempts [] xs"

definition attempts ::
  "event list \<Rightarrow> ((string \<times> (error + string)) list \<times> (string \<rightharpoonup> string)) list" where
  "attempts evs = splitAttempts [] (secretSteps evs)"

text \<open>
  An attempt collects the secret of \<open>key\<close> interactively: its first secret prompt is
  the one named \<open>name\<close>, and what was typed there is what is submitted under \<open>key\<close>.
\<close>

fun promptedFirst ::
  "string \<Rightarrow> string \<Rightarrow> (string \<times> (error + string)) list \<times> (string \<rightharpoonup> string) \<Rightarrow> bool" where
  "promptedFirst name key ((n, Inr v) # ps, c) = (n = name \<and> c key = Some v)"
| "promptedFirst name key _ = False"

text \<open>An attempt submits the value \<open>v\<close> under \<open>key\<close>.\<close>

definition submits :: "string \<Rightarrow> string \<Rightarrow> (string \<times> (error + string)) list \<times> (string \<rightharpoonup> string) \<Rightarrow> bool" where
  "submits key v a \<longleftrightarrow> snd a key = Some v"

section \<open>An example environment\<close>

text \<open>
  A server that asks for a user name, a password and a one-time code (declared in
  another order), accepts the password \<open>secret\<close> and shows three organizations; a user
  who types \<open>alice\<close>, \<open>secret\<close>, \<open>123456\<close> and picks the second organization.
\<close>

definition demo_prompts :: "(string \<times> AuthPrompt) list" where
  "demo_prompts =
     [(''otp'', \<lparr>Type = AuthPromptTypePassword, DisplayName = ''MFA Code''\<rparr>),
      (''password'', \<lparr>Type = AuthPromptTypePassword, DisplayName = ''Password''\<rparr>),
      (''username'', \<lparr>Type = AuthPromptTypeText, DisplayName = ''Email''\<rparr>)]"

definition demo_orgs :: "Organization list" where
  "demo_orgs =
     [\<lparr>GUID = ''guid1'', Name = ''org1''\<rparr>, \<lparr>GUID = ''guid2'', Name = ''org2''\<rparr>,
      \<lparr>GUID = ''guid3'', Name = ''org3''\<rparr>]"

definition demo_env :: env where
  "demo_env =
     \<lparr>Config_ExperimentalLogin = True,
      Config_Target = [],
      Config_SkipSSLValidation = False,
      Config_UAAGrantType = ''password'',
      Config_APIVersion = ''3.70.0'',
      Config_CurrentUserName = (''alice'', None),
      Config_TargetedOrganizationName = ''org2'',
      Config_BinaryName = ''cf'',
      UI_DisplayTextPrompt = (\<lambda>h name. Inr ''alice''),
      UI_DisplayPasswordPrompt =
        (\<lambda>h name. if name = ''Password'' then Inr ''secret'' else Inr ''123456''),
      UI_DisplayTextMenu = (\<lambda>h choices name. Inr ''org2''),
      Actor_SetTarget = (\<lambda>settings. None),
      ActorMaker_NewActor = None,
      Actor_GetLoginPrompts = demo_prompts,
      Actor_Authenticate =
        (\<lambda>h credentials.
           if credentials ''password'' = Some ''secret'' then None
           else Some (OtherError ''Bad credentials'')),
      Actor_GetOrganizationByName = (\<lambda>name. (\<lparr>GUID = ''guid0'', Name = name\<rparr>, [], None)),
      Actor_GetOrganizations = (demo_orgs, [], None),
      CheckerMaker_NewVersionChecker = None,
      Checker_MinCLIVersion = ''6.23.0'',
      Checker_CloudControllerAPIVersion = ''2.128.0'',
      command_WarnIfCLIVersionBelowAPIDefinedMinimum = (\<lambda>apiVersion. None),
      url_Parse = go_url_Parse,
      url_String = go_url_String\<rparr>"

definition demo_cmd :: LoginCommand where
  "demo_cmd =
     \<lparr>APIEndpoint = ''api.example.com'', Organization = [], Password = ''pw1'', Space = [],
      SkipSSLValidation = False, SSO = False, SSOPasscode = [], Username = []\<rparr>"

definition demo_state :: state where
  "demo_state = \<lparr>cmd = demo_cmd, log = []\<rparr>"

section \<open>Runs only add to the log\<close>

lemma since_self [simp]: "since s s = []"
  by (simp add: since_def)

lemma since_append: "log s' = log s @ evs \<Longrightarrow> since s s' = evs"
  by (simp add: since_def)

lemma adds_iff: "adds P s s' \<longleftrightarrow> (\<exists>evs. log s' = log s @ evs \<and> list_all P evs)"
  by (auto simp: adds_def since_def prefix_def)

lemma adds_refl [simp]: "adds P s s"
  by (simp add: adds_iff)

lemma adds_emit: "adds P s t \<Longrightarrow> P ev \<Longrightarrow> adds P s (emit ev t)"
  by (auto simp: adds_iff emit_def)

lemma adds_cmd [simp]: "adds P s (t\<lparr>cmd := c\<rparr>) = adds P s t"
  by (simp add: adds_iff)

lemma adds_trans: "adds P s t \<Longrightarrow> adds P t u \<Longrightarrow> adds P s u"
  by (auto simp: adds_iff)

lemma adds_mono: "adds P s t \<Longrightarrow> (\<And>ev. P ev \<Longrightarrow> Q ev) \<Longrightarrow> adds Q s t"
  by (auto simp: adds_iff list_all_iff)

lemma adds_since: "adds P s t \<Longrightarrow> log t = log s @ since s t"
  by (auto simp: adds_iff since_def)

lemma since_trans: "adds P s t \<Longrightarrow> adds Q t u \<Longrightarrow> since s u = since s t @ since t u"
  by (auto simp: adds_iff since_def)

lemma adds_DisplayTextPrompt:
  "adds P s0 s \<Longrightarrow> (\<And>n r. P (EvDisplayTextPrompt n r)) \<Longrightarrow> adds P s0 (snd (DisplayTextPrompt e name s))"
  by (simp add: DisplayTextPrompt_def Let_def adds_emit)

lemma adds_DisplayPasswordPrompt:
  "adds P s0 s \<Longrightarrow> (\<And>n r. P (EvDisplayPasswordPrompt n r)) \<Longrightarrow> adds P s0 (snd (DisplayPasswordPrompt e name s))"
  by (simp add: DisplayPasswordPrompt_def Let_def adds_emit)

lemma adds_passwordPrompts_keys:
  "adds collectEvent s0 s \<Longrightarrow> adds collectEvent s0 (snd (passwordPrompts_keys e prompts credentials keys s))"
proof (induction keys arbitrary: credentials s)
  case Nil
  then show ?case by simp
next
  case (Cons key keys)
  let ?p = "DisplayPasswordPrompt e (promptDisplayName prompts key) (emit EvDisplayNewline s)"
  have a: "adds collectEvent s0 (snd ?p)"
    using Cons.prems by (simp add: adds_DisplayPasswordPrompt adds_emit)
  show ?case
  proof (cases "fst ?p")
    case (Inl err)
    then show ?thesis using a by (simp add: case_prod_beta)
  next
    case (Inr v)
    then show ?thesis using Cons.IH [OF a] by (simp add: case_prod_beta)
  qed
qed

lemma adds_passwordPrompts_password:
  "adds collectEvent s0 s \<Longrightarrow> adds collectEvent s0 (snd (passwordPrompts_password e prompts credentials s))"
  by (auto simp: passwordPrompts_password_def DisplayPasswordPrompt_def Let_def adds_emit split: option.splits sum.splits)

lemma adds_passwordPrompts:
  "adds collectEvent s0 s \<Longrightarrow> adds collectEvent s0 (snd (passwordPrompts e prompts credentials keys s))"
  using adds_passwordPrompts_password [of s0 s e prompts credentials]
  by (auto simp: passwordPrompts_def split: prod.splits sum.splits intro: adds_passwordPrompts_keys)

lemma adds_authenticate_username:
  "adds collectEvent s0 s \<Longrightarrow> adds collectEvent s0 (snd (authenticate_username e prompts s))"
  by (auto simp: authenticate_username_def DisplayTextPrompt_def Let_def adds_emit split: option.splits sum.splits)

lemma adds_authenticate_range:
  "adds collectEvent s0 s \<Longrightarrow> adds collectEvent s0 (snd (authenticate_range e prompts credentials keys s))"
proof (induction prompts arbitrary: credentials keys s)
  case Nil
  then show ?case by simp
next
  case (Cons kp rest)
  obtain key prompt where kp: "kp = (key, prompt)" by (cases kp)
  let ?p = "DisplayTextPrompt e (DisplayName prompt) s"
  have a: "adds collectEvent s0 (snd ?p)"
    using Cons.prems by (simp add: adds_DisplayTextPrompt)
  have b: "adds collectEvent s0 (emit EvDisplayNewline (snd ?p))"
    using a by (simp add: adds_emit)
  show ?case
  proof (cases "fst ?p")
    case (Inl err)
    then show ?thesis using a Cons.IH [OF Cons.prems] by (simp add: kp case_prod_beta)
  next
    case (Inr v)
    then show ?thesis using Cons.IH [OF b] Cons.IH [OF Cons.prems] by (simp add: kp case_prod_beta)
  qed
qed


lemma collect_auth: "collectEvent ev \<Longrightarrow> authEvent ev"
  by (cases ev) simp_all

lemma auth_deferred: "authEvent ev \<Longrightarrow> deferredEvent ev"
  by (cases ev) simp_all

lemma deferred_not_table: "deferredEvent ev \<Longrightarrow> \<not> isStatusTable ev"
  by (cases ev) simp_all

lemma adds_step: "adds Q s0 s \<Longrightarrow> adds P s t \<Longrightarrow> (\<And>ev. P ev \<Longrightarrow> Q ev) \<Longrightarrow> adds Q s0 t"
  by (blast intro: adds_trans adds_mono)

lemma adds_Authenticate:
  "adds authEvent s0 s \<Longrightarrow> adds authEvent s0 (snd (Authenticate e c ori g s))"
  by (simp add: Authenticate_def Let_def adds_emit)

lemma adds_authenticate_loop:
  "adds authEvent s0 s \<Longrightarrow>
   adds authEvent s0 (snd (authenticate_loop n e prompts keys err credentials s))"
proof (induction n arbitrary: err credentials s)
  case 0
  then show ?case by simp
next
  case (Suc n)
  let ?p = "passwordPrompts e prompts credentials keys s"
  have a: "adds authEvent s0 (snd ?p)"
    using Suc.prems adds_passwordPrompts [of s s e prompts credentials keys]
    by (auto intro: adds_step collect_auth)
  show ?case
  proof (cases "fst ?p")
    case (Inl err1)
    then show ?thesis using a by (simp add: case_prod_beta)
  next
    case (Inr pc)
    let ?a = "Authenticate e pc [] GrantTypePassword (emit (EvDisplayText ''Authenticating...'' []) (snd ?p))"
    have b: "adds authEvent s0 (snd ?a)"
      using a by (simp add: adds_Authenticate adds_emit)
    show ?thesis
    proof (cases "fst ?a")
      case None
      then show ?thesis using Inr b by (simp add: case_prod_beta adds_emit)
    next
      case (Some err1)
      have c: "adds authEvent s0 (emit EvDisplayNewline (emit (EvDisplayWarningError err1) (snd ?a)))"
        using b by (simp add: adds_emit)
      show ?thesis using Inr Some c Suc.IH [OF c]
        by (cases err1) (simp_all add: case_prod_beta Let_def)
    qed
  qed
qed


lemma adds_authenticate: "adds authEvent s (snd (authenticate e s))"
proof -
  let ?ps = "Actor_GetLoginPrompts e"
  let ?u = "authenticate_username e ?ps (emit EvGetLoginPrompts s)"
  have a: "adds authEvent s (emit EvGetLoginPrompts s)"
    by (simp add: adds_emit)
  have b: "adds authEvent s (snd ?u)"
    using a adds_authenticate_username [of "emit EvGetLoginPrompts s" "emit EvGetLoginPrompts s" e ?ps]
    by (auto intro: adds_step collect_auth)
  show ?thesis
  proof (cases "fst ?u")
    case (Inl err)
    then show ?thesis using b by (simp add: authenticate_def Let_def case_prod_beta)
  next
    case (Inr c)
    let ?r = "authenticate_range e ?ps c [] (snd ?u)"
    have d: "adds authEvent s (snd ?r)"
      using b adds_authenticate_range [of "snd ?u" "snd ?u" e ?ps c "[]"]
      by (auto intro: adds_step collect_auth)
    show ?thesis
    proof (cases "fst ?r")
      case (Inl err)
      then show ?thesis using Inr d by (simp add: authenticate_def Let_def case_prod_beta)
    next
      case (Inr ck)
      then show ?thesis using \<open>fst ?u = Inr c\<close> adds_authenticate_loop [OF d]
        by (simp add: authenticate_def Let_def case_prod_beta)
    qed
  qed
qed

lemma adds_authenticateSSO_passcode:
  "adds collectEvent s0 s \<Longrightarrow>
   adds collectEvent s0 (snd (authenticateSSO_passcode e prompts credentials s))"
  by (auto simp: authenticateSSO_passcode_def DisplayPasswordPrompt_def Let_def adds_emit
      split: sum.splits)

lemma adds_authenticateSSO_loop:
  "adds authEvent s0 s \<Longrightarrow>
   adds authEvent s0 (snd (authenticateSSO_loop n e prompts err credentials s))"
proof (induction n arbitrary: err credentials s)
  case 0
  then show ?case by simp
next
  case (Suc n)
  let ?p = "authenticateSSO_passcode e prompts credentials s"
  have a: "adds authEvent s0 (snd ?p)"
    using Suc.prems adds_authenticateSSO_passcode [of s s e prompts credentials]
    by (auto intro: adds_step collect_auth)
  show ?case
  proof (cases "fst ?p")
    case (Inl err1)
    then show ?thesis using a by (simp add: case_prod_beta)
  next
    case (Inr pc)
    let ?a = "Authenticate e pc [] GrantTypePassword (emit (EvDisplayText ''Authenticating...'' []) (snd ?p))"
    have b: "adds authEvent s0 (snd ?a)"
      using a by (simp add: adds_Authenticate adds_emit)
    show ?thesis
    proof (cases "fst ?a")
      case None
      then show ?thesis using Inr b by (simp add: case_prod_beta adds_emit)
    next
      case (Some err1)
      have c: "adds authEvent s0 (emit EvDisplayNewline (emit (EvDisplayWarningError err1) (snd ?a)))"
        using b by (simp add: adds_emit)
      show ?thesis using Inr Some Suc.IH [OF c]
        by (simp add: case_prod_beta)
    qed
  qed
qed

lemma adds_authenticateSSO: "adds authEvent s (snd (authenticateSSO e s))"
  unfolding authenticateSSO_def
  by (rule adds_authenticateSSO_loop) (simp add: adds_emit)

lemma adds_promptChosenOrg:
  "adds deferredEvent s0 s \<Longrightarrow> adds deferredEvent s0 (snd (promptChosenOrg e orgs s))"
  by (auto simp: promptChosenOrg_def DisplayTextMenu_def Let_def adds_emit
      split: sum.splits option.splits)

lemma adds_Execute_organization:
  assumes "adds deferredEvent s0 s"
  shows "adds deferredEvent s0 (snd (Execute_organization e s))"
proof (cases "Organization (cmd s) \<noteq> []")
  case True
  then show ?thesis using assms
    by (auto simp: Execute_organization_def Let_def adds_emit split: prod.splits option.splits)
next
  case False
  obtain orgs warnings err where g: "Actor_GetOrganizations e = (orgs, warnings, err)"
    by (cases "Actor_GetOrganizations e")
  let ?s1 = "emit (EvDisplayWarnings warnings) (emit EvGetOrganizations s)"
  have a: "adds deferredEvent s0 ?s1"
    using assms by (simp add: adds_emit)
  have b: "adds deferredEvent s0 (snd (promptChosenOrg e orgs ?s1))"
    using a by (rule adds_promptChosenOrg)
  show ?thesis using False g a b
    by (auto simp: Execute_organization_def Let_def adds_emit split: prod.splits option.splits sum.splits)
qed

lemma adds_checkMinCLIVersion:
  "adds deferredEvent s0 s \<Longrightarrow> adds deferredEvent s0 (snd (checkMinCLIVersion e s))"
  by (auto simp: checkMinCLIVersion_def Let_def adds_emit split: option.splits)

lemma adds_Execute_afterAuth:
  assumes "adds deferredEvent s0 (snd r)"
  shows "adds deferredEvent s0 (snd (Execute_afterAuth e r))"
proof (cases "fst r")
  case (Some authErr)
  then show ?thesis using assms by (cases r) (simp add: Execute_afterAuth_def)
next
  case None
  let ?o = "Execute_organization e (snd r)"
  have a: "adds deferredEvent s0 (snd ?o)"
    using assms by (rule adds_Execute_organization)
  have b: "adds deferredEvent s0 (snd (checkMinCLIVersion e (snd ?o)))"
    using a by (rule adds_checkMinCLIVersion)
  show ?thesis using None a b
    by (cases r) (auto simp: Execute_afterAuth_def split: prod.splits option.splits)
qed

lemma adds_Execute_deferred: "adds deferredEvent s (snd (Execute_deferred e s))"
proof -
  have a: "adds deferredEvent s (snd (authenticate e s))"
    using adds_authenticate [of s e] by (auto intro: adds_mono collect_auth auth_deferred)
  have b: "adds deferredEvent s (snd (authenticateSSO e s))"
    using adds_authenticateSSO [of s e] by (auto intro: adds_mono auth_deferred)
  show ?thesis
    using adds_Execute_afterAuth [OF a] adds_Execute_afterAuth [OF b]
    by (simp add: Execute_deferred_def)
qed


lemma adds_Execute_endpoint:
  "adds targetEvent s0 s \<Longrightarrow> adds targetEvent s0 (snd (Execute_endpoint e s))"
  by (auto simp: Execute_endpoint_def DisplayTextPrompt_def Let_def adds_emit split: sum.splits)

text \<open>
  The three ways \<open>Execute\<close> goes once the experimental flag is on: it returns before
  the client is rebuilt, the rebuild fails, or the deferred part runs and the status
  report follows. Up to there only \<open>APIEndpoint\<close> of the command has changed.
\<close>

lemma cmd_Execute_endpoint:
  "cmd (snd (Execute_endpoint e s)) = (cmd s)\<lparr>APIEndpoint := APIEndpoint (cmd (snd (Execute_endpoint e s)))\<rparr>"
  by (auto simp: Execute_endpoint_def DisplayTextPrompt_def Let_def emit_def split: sum.splits)

lemma Execute_shape:
  assumes x: "Config_ExperimentalLogin e"
  shows "adds targetEvent (emit (EvDisplayWarning experimentalWarning) s) (snd (Execute e s))
       \<or> (\<exists>s3 err. adds targetEvent (emit (EvDisplayWarning experimentalWarning) s) s3
             \<and> Execute e s = (Returns (Some err), emit (EvNewActor True (Some err)) s3))
       \<or> (\<exists>s3. adds targetEvent (emit (EvDisplayWarning experimentalWarning) s) s3
             \<and> cmd s3 = (cmd s)\<lparr>APIEndpoint := APIEndpoint (cmd s3)\<rparr>
             \<and> Execute e s =
                 (Returns (fst (Execute_deferred e (emit (EvNewActor True None) s3))),
                  showStatus e (snd (Execute_deferred e (emit (EvNewActor True None) s3)))))"
proof -
  let ?s0 = "emit (EvDisplayWarning experimentalWarning) s"
  let ?ep = "Execute_endpoint e ?s0"
  let ?s2 = "emit EvDisplayNewline (snd ?ep)"
  have a: "adds targetEvent ?s0 (snd ?ep)"
    by (rule adds_Execute_endpoint) simp
  have b: "adds targetEvent ?s0 ?s2"
    using a by (simp add: adds_emit)
  show ?thesis
  proof (cases "fst ?ep")
    case (Some err)
    then show ?thesis using x a
      by (simp add: Execute_def experimentalWarning_def case_prod_beta)
  next
    case None
    note ep = None
    show ?thesis
    proof (cases "Execute_settings e ?s2")
      case None
      then show ?thesis using x ep b
        by (simp add: Execute_def experimentalWarning_def case_prod_beta Let_def)
    next
      case (Some settings)
      let ?s3 = "emit (EvSetTarget settings (Actor_SetTarget e settings)) ?s2"
      have c: "adds targetEvent ?s0 ?s3"
        using b by (simp add: adds_emit)
      have d: "cmd ?s3 = (cmd s)\<lparr>APIEndpoint := APIEndpoint (cmd ?s3)\<rparr>"
        using cmd_Execute_endpoint [of e ?s0] by (simp add: emit_def)
      show ?thesis
      proof (cases "Actor_SetTarget e settings")
        case (Some err1)
        then show ?thesis using x ep \<open>Execute_settings e ?s2 = Some settings\<close> c
          by (simp add: Execute_def experimentalWarning_def case_prod_beta Let_def)
      next
        case None
        note st = None
        show ?thesis
        proof (cases "ActorMaker_NewActor e")
          case (Some err1)
          then have "Execute e s = (Returns (Some err1), emit (EvNewActor True (Some err1)) ?s3)"
            using x ep \<open>Execute_settings e ?s2 = Some settings\<close> st
            by (simp add: Execute_def experimentalWarning_def case_prod_beta Let_def reloadActor_def)
          then show ?thesis using c by blast
        next
          case None
          let ?s4 = "emit (EvNewActor True None) ?s3"
          have "Execute e s = (Returns (fst (Execute_deferred e ?s4)), showStatus e (snd (Execute_deferred e ?s4)))"
            using x ep \<open>Execute_settings e ?s2 = Some settings\<close> st None
            by (simp add: Execute_def experimentalWarning_def case_prod_beta Let_def reloadActor_def)
          then show ?thesis using c d by blast
        qed
      qed
    qed
  qed
qed

section \<open>The status report and the experimental flag\<close>

lemma showStatus_shape:
  "\<exists>rows ev. log (showStatus e s) = log s @ [EvDisplayKeyValueTable [] rows 3, ev] \<and> authEvent ev"
  by (simp add: showStatus_def Let_def displayNotLoggedIn_def displayNotTargetted_def emit_def)

text \<open>The report: the target, then the user if one is logged in, then the organization if one is targeted.\<close>

lemma showStatus_report:
  "filter isStatusTable (since s (showStatus e s)) =
     [EvDisplayKeyValueTable []
        ([TranslateText ''API endpoint:'' [],
          TranslateText ''{{.APIEndpoint}} (API version: {{.APIVersion}})''
            [(''APIEndpoint'', TrimRight (APIEndpoint (cmd s)) ''/''),
             (''APIVersion'', Config_APIVersion e)]]
         # (if fst (Config_CurrentUserName e) = [] \<or> snd (Config_CurrentUserName e) \<noteq> None then []
            else [TranslateText ''User:'' [], Plain (fst (Config_CurrentUserName e))]
              # (if Config_TargetedOrganizationName e = [] then []
                 else [[TranslateText ''Org:'' [], Plain (Config_TargetedOrganizationName e)]])))
        3]"
  by (simp add: showStatus_def Let_def displayNotLoggedIn_def displayNotTargetted_def emit_def since_def)

lemma list_all_not_table: "list_all deferredEvent evs \<Longrightarrow> filter isStatusTable evs = []"
  by (induction evs) (auto dest: deferred_not_table)

lemma target_not_table: "list_all targetEvent evs \<Longrightarrow> filter isStatusTable evs = []"
proof (induction evs)
  case Nil
  then show ?case by simp
next
  case (Cons ev evs)
  then show ?case by (cases ev) simp_all
qed

lemma target_not_rebuilt: "list_all targetEvent evs \<Longrightarrow> EvNewActor b r \<notin> set evs"
  by (auto simp: list_all_iff)

lemma deferred_not_rebuilt: "list_all deferredEvent evs \<Longrightarrow> EvNewActor b r \<notin> set evs"
  by (auto simp: list_all_iff)

lemmas exec_defs = Execute_def Execute_endpoint_def Execute_settings_def emit_def TrimRight_def
    reloadActor_def Execute_deferred_def authenticate_def authenticate_username_def DisplayTextPrompt_def
    maxLoginTries_def passwordPrompts_def passwordPrompts_password_def DisplayPasswordPrompt_def
    Authenticate_def Execute_afterAuth_def Let_def promptDisplayName_def showStatus_def displayNotLoggedIn_def
    displayNotTargetted_def authenticateSSO_def authenticateSSO_passcode_def checkMinCLIVersion_def
    Execute_organization_def promptChosenOrg_def DisplayTextMenu_def

text \<open>
  Claim C3, as the code has it. The status report is a guaranteed effect of every exit
  path that follows \<open>defer cmd.showStatus()\<close>, and the deferral stands after the
  client rebuild: the table is rendered exactly once when the rebuild has succeeded
  (the log holds \<open>EvNewActor True None\<close>), and not at all when \<open>Execute\<close> returns
  earlier, for a failed rebuild included.
\<close>

theorem Execute_status_report:
  "length (filter isStatusTable (since s (snd (Execute e s)))) =
     (if EvNewActor True None \<in> set (since s (snd (Execute e s))) then 1 else 0)"
proof (cases "Config_ExperimentalLogin e")
  case False
  then show ?thesis by (simp add: Execute_def)
next
  case True
  let ?w = "EvDisplayWarning experimentalWarning"
  from Execute_shape [OF True, of s]
  consider (early) "adds targetEvent (emit ?w s) (snd (Execute e s))"
    | (reload) s3 err where "adds targetEvent (emit ?w s) s3"
        "Execute e s = (Returns (Some err), emit (EvNewActor True (Some err)) s3)"
    | (deferred) s3 r s5 where "adds targetEvent (emit ?w s) s3"
        "adds deferredEvent (emit (EvNewActor True None) s3) s5"
        "Execute e s = (Returns r, showStatus e s5)"
    using adds_Execute_deferred by blast
  then show ?thesis
  proof cases
    case early
    then obtain evs where "log (snd (Execute e s)) = log s @ ?w # evs" "list_all targetEvent evs"
      by (auto simp: adds_iff emit_def)
    then show ?thesis
      by (simp add: since_def target_not_table target_not_rebuilt)
  next
    case reload
    then obtain evs where "log s3 = log s @ ?w # evs" "list_all targetEvent evs"
      by (auto simp: adds_iff emit_def)
    then show ?thesis using reload(2)
      by (simp add: since_def emit_def target_not_table target_not_rebuilt)
  next
    case deferred
    obtain evs where a: "log s3 = log s @ ?w # evs" "list_all targetEvent evs"
      using deferred(1) by (auto simp: adds_iff emit_def)
    obtain evs' where b: "log s5 = log s3 @ EvNewActor True None # evs'" "list_all deferredEvent evs'"
      using deferred(2) by (auto simp: adds_iff emit_def)
    obtain rows ev where c: "log (showStatus e s5) = log s5 @ [EvDisplayKeyValueTable [] rows 3, ev]"
        "authEvent ev"
      using showStatus_shape by blast
    have "\<not> isStatusTable ev"
      using c(2) by (simp add: auth_deferred deferred_not_table)
    then show ?thesis using a b c(1) deferred(3)
      by (simp add: since_def target_not_table list_all_not_table)
  qed
qed

text \<open>
  The target is set, the rebuild of the client fails: \<open>Execute\<close> returns the error of
  the rebuild and renders no status report.
\<close>

theorem Execute_no_status_when_reload_fails:
  "EvSetTarget \<lparr>URL = ''https://api.example.com'', SkipSSLValidation = False\<rparr> None
     \<in> set (since demo_state (snd (Execute (demo_env\<lparr>ActorMaker_NewActor := Some (OtherError ''no client'')\<rparr>) demo_state)))
   \<and> fst (Execute (demo_env\<lparr>ActorMaker_NewActor := Some (OtherError ''no client'')\<rparr>) demo_state)
       = Returns (Some (OtherError ''no client''))
   \<and> filter isStatusTable
        (since demo_state (snd (Execute (demo_env\<lparr>ActorMaker_NewActor := Some (OtherError ''no client'')\<rparr>) demo_state))) = []"
  by (simp add: exec_defs since_def demo_env_def demo_state_def demo_cmd_def go_url_Parse_def
      go_url_String_def plainChar_def lowerLetters_def upperLetters_def digits_def getScheme_def
      ToLower_def validOptionalPort_def colonPort_def)


lemmas demo_defs = demo_env_def demo_state_def demo_cmd_def demo_prompts_def demo_orgs_def
    go_url_Parse_def go_url_String_def plainChar_def lowerLetters_def upperLetters_def digits_def
    getScheme_def ToLower_def validOptionalPort_def colonPort_def

theorem Execute_status_report_witness:
  "length (filter isStatusTable (since demo_state (snd (Execute demo_env demo_state)))) = 1"
proof -
  have "EvNewActor True None \<in> set (since demo_state (snd (Execute demo_env demo_state)))"
    by (simp add: exec_defs since_def demo_defs eval_nat_numeral)
  then show ?thesis
    using Execute_status_report [of demo_state demo_env] by simp
qed

lemma showStatus_prefix: "prefix (log s) (log (showStatus e s))"
  using showStatus_shape [of e s] by (auto simp: prefix_def)

lemma adds_prefix: "adds P s t \<Longrightarrow> prefix (log s) (log t)"
  by (simp add: adds_def)

text \<open>
  Claim C10. With the experimental-login flag off, \<open>Execute\<close> returns the
  unrefactored-command error and leaves the state as it was: no prompt, no call to a
  collaborator, no line written. With the flag on, the run starts: its first event is
  the warning that the experimental command is in use.
\<close>

theorem Execute_experimental_gate:
  "(\<not> Config_ExperimentalLogin e \<longrightarrow> Execute e s = (Returns (Some UnrefactoredCommandError), s)) \<and>
   (Config_ExperimentalLogin e \<longrightarrow>
      prefix (log s @ [EvDisplayWarning experimentalWarning]) (log (snd (Execute e s))))"
proof (cases "Config_ExperimentalLogin e")
  case False
  then show ?thesis by (simp add: Execute_def)
next
  case True
  let ?w = "EvDisplayWarning experimentalWarning"
  have l: "log (emit ?w s) = log s @ [?w]"
    by (simp add: emit_def)
  from Execute_shape [OF True, of s]
  consider (early) "adds targetEvent (emit ?w s) (snd (Execute e s))"
    | (reload) s3 err where "adds targetEvent (emit ?w s) s3"
        "Execute e s = (Returns (Some err), emit (EvNewActor True (Some err)) s3)"
    | (deferred) s3 r s5 where "adds targetEvent (emit ?w s) s3"
        "adds deferredEvent (emit (EvNewActor True None) s3) s5"
        "Execute e s = (Returns r, showStatus e s5)"
    using adds_Execute_deferred by blast
  then have "prefix (log (emit ?w s)) (log (snd (Execute e s)))"
  proof cases
    case early
    then show ?thesis by (rule adds_prefix)
  next
    case reload
    have "prefix (log (emit ?w s)) (log s3)"
      using reload(1) by (rule adds_prefix)
    then show ?thesis using reload(2) by (simp add: emit_def)
  next
    case deferred
    have "prefix (log (emit ?w s)) (log s3)"
      using deferred(1) by (rule adds_prefix)
    moreover have "prefix (log s3) (log (emit (EvNewActor True None) s3))"
      by (simp add: emit_def)
    moreover have "prefix (log (emit (EvNewActor True None) s3)) (log s5)"
      using deferred(2) by (rule adds_prefix)
    moreover have "prefix (log s5) (log (showStatus e s5))"
      by (rule showStatus_prefix)
    ultimately show ?thesis using deferred(3)
      by (auto intro: prefix_order.trans)
  qed
  then show ?thesis using True l by simp
qed

theorem Execute_experimental_gate_witness:
  "Execute (demo_env\<lparr>Config_ExperimentalLogin := False\<rparr>) demo_state
     = (Returns (Some UnrefactoredCommandError), demo_state) \<and>
   prefix [EvDisplayWarning experimentalWarning] (log (snd (Execute demo_env demo_state)))"
  using Execute_experimental_gate [of "demo_env\<lparr>Config_ExperimentalLogin := False\<rparr>" demo_state]
    Execute_experimental_gate [of demo_env demo_state]
  by (simp add: demo_env_def demo_state_def)

section \<open>Organization selection without a flag\<close>

lemmas demo_menu_defs = Execute_organization_def promptChosenOrg_def DisplayTextMenu_def emit_def Let_def
  demo_env_def demo_orgs_def demo_state_def demo_cmd_def emptyOrg_def Execute_afterAuth_def

text \<open>
  Claim C8. Without the \<open>-o\<close> flag the organizations are listed. None: nothing is
  recorded and no error returned. One: it is recorded, and the terminal is not asked.
  Several and the menu read ends with \<open>io.EOF\<close>: nothing is recorded and no error
  returned. Several and the menu read fails otherwise: the error is returned, and it
  ends the part of \<open>Execute\<close> that follows the authentication.
\<close>

theorem organization_without_flag:
  assumes "Organization (cmd s) = []"
    and "Actor_GetOrganizations e = (orgs, warnings, None)"
    and "s1 = emit (EvDisplayWarnings warnings) (emit EvGetOrganizations s)"
    and "reply = UI_DisplayTextMenu e (log (emit (EvDisplayText ''Select an org:'' []) s1)) (map Name orgs) ''Org''"
    and "s2 = emit (EvDisplayTextMenu (map Name orgs) ''Org'' reply) (emit (EvDisplayText ''Select an org:'' []) s1)"
  shows "(orgs = [] \<longrightarrow> Execute_organization e s = (None, s1)) \<and>
         (\<forall>org. orgs = [org] \<longrightarrow>
            Execute_organization e s =
              (None, emit (EvSetOrganizationInformation (GUID org) (Name org)) s1)) \<and>
         (1 < length orgs \<and> reply = Inl EOF \<longrightarrow> Execute_organization e s = (None, s2)) \<and>
         (\<forall>err. 1 < length orgs \<and> reply = Inl err \<and> err \<noteq> EOF \<longrightarrow>
            Execute_organization e s = (Some err, s2) \<and>
            Execute_afterAuth e (None, s) = (Some err, s2))"
  using assms
  by (auto simp: Execute_organization_def Execute_afterAuth_def promptChosenOrg_def
      DisplayTextMenu_def Let_def emptyOrg_def)

theorem organization_without_flag_witness:
  "Execute_organization (demo_env\<lparr>Actor_GetOrganizations := ([], [''w''], None)\<rparr>) demo_state
     = (None, demo_state\<lparr>log := [EvGetOrganizations, EvDisplayWarnings [''w'']]\<rparr>) \<and>
   Execute_organization (demo_env\<lparr>Actor_GetOrganizations := ([\<lparr>GUID = ''guid1'', Name = ''org1''\<rparr>], [], None)\<rparr>) demo_state
     = (None, demo_state\<lparr>log := [EvGetOrganizations, EvDisplayWarnings [],
                                   EvSetOrganizationInformation ''guid1'' ''org1'']\<rparr>) \<and>
   Execute_organization (demo_env\<lparr>UI_DisplayTextMenu := (\<lambda>h choices name. Inl EOF)\<rparr>) demo_state
     = (None, demo_state\<lparr>log := [EvGetOrganizations, EvDisplayWarnings [],
                                   EvDisplayText ''Select an org:'' [],
                                   EvDisplayTextMenu [''org1'', ''org2'', ''org3''] ''Org'' (Inl EOF)]\<rparr>) \<and>
   Execute_afterAuth (demo_env\<lparr>UI_DisplayTextMenu := (\<lambda>h choices name. Inl (OtherError ''closed''))\<rparr>)
       (None, demo_state)
     = (Some (OtherError ''closed''),
        demo_state\<lparr>log := [EvGetOrganizations, EvDisplayWarnings [],
                            EvDisplayText ''Select an org:'' [],
                            EvDisplayTextMenu [''org1'', ''org2'', ''org3''] ''Org''
                              (Inl (OtherError ''closed''))]\<rparr>)"
  using organization_without_flag
          [of demo_state "demo_env\<lparr>Actor_GetOrganizations := ([], [''w''], None)\<rparr>" "[]" "[''w'']",
           OF _ _ refl refl refl]
        organization_without_flag
          [of demo_state
              "demo_env\<lparr>Actor_GetOrganizations := ([\<lparr>GUID = ''guid1'', Name = ''org1''\<rparr>], [], None)\<rparr>"
              "[\<lparr>GUID = ''guid1'', Name = ''org1''\<rparr>]" "[]",
           OF _ _ refl refl refl]
        organization_without_flag
          [of demo_state "demo_env\<lparr>UI_DisplayTextMenu := (\<lambda>h choices name. Inl EOF)\<rparr>" demo_orgs "[]",
           OF _ _ refl refl refl]
        organization_without_flag
          [of demo_state "demo_env\<lparr>UI_DisplayTextMenu := (\<lambda>h choices name. Inl (OtherError ''closed''))\<rparr>"
              demo_orgs "[]",
           OF _ _ refl refl refl]
  by (simp add: demo_env_def demo_orgs_def demo_state_def demo_cmd_def emit_def)

section \<open>The version check\<close>

lemma checkMinCLIVersion_result:
  "fst (checkMinCLIVersion e s) =
     (case CheckerMaker_NewVersionChecker e of
        Some err \<Rightarrow> Some err
      | None \<Rightarrow> command_WarnIfCLIVersionBelowAPIDefinedMinimum e (Checker_CloudControllerAPIVersion e))"
  by (simp add: checkMinCLIVersion_def Let_def split: option.splits)

lemma Execute_afterAuth_version:
  "fst (Execute_organization e s) = None \<Longrightarrow>
   Execute_afterAuth e (None, s) = checkMinCLIVersion e (snd (Execute_organization e s))"
  by (cases "Execute_organization e s"; cases "checkMinCLIVersion e (snd (Execute_organization e s))")
     (auto simp: Execute_afterAuth_def split: option.splits)

text \<open>
  Claim C2, as the code has it. \<open>Execute\<close> returns the error of
  \<open>checkMinCLIVersion\<close> (lines 208-211): once the authentication and the organization
  stage have succeeded, the result of the deferred part is the result of the version
  check, which is the error of the checker's construction when that fails, and
  otherwise what \<open>WarnIfCLIVersionBelowAPIDefinedMinimum\<close> returns.
\<close>

theorem version_check_decides:
  assumes "Config_UAAGrantType e \<noteq> ''client_credentials''"
    and "\<not> (SSO (cmd s) \<and> SSOPasscode (cmd s) \<noteq> [])"
    and "a = (if SSO (cmd s) \<or> SSOPasscode (cmd s) \<noteq> [] then authenticateSSO e s else authenticate e s)"
    and "fst a = None"
    and "fst (Execute_organization e (snd a)) = None"
  shows "Execute_deferred e s = checkMinCLIVersion e (snd (Execute_organization e (snd a))) \<and>
         fst (Execute_deferred e s) =
           (case CheckerMaker_NewVersionChecker e of
              Some err \<Rightarrow> Some err
            | None \<Rightarrow>
                command_WarnIfCLIVersionBelowAPIDefinedMinimum e (Checker_CloudControllerAPIVersion e))"
proof -
  have "Execute_deferred e s = Execute_afterAuth e a"
    using assms(1-3) by (auto simp: Execute_deferred_def)
  also have "\<dots> = Execute_afterAuth e (None, snd a)"
    using assms(4) by (cases a) simp
  also have "\<dots> = checkMinCLIVersion e (snd (Execute_organization e (snd a)))"
    using assms(5) by (rule Execute_afterAuth_version)
  finally show ?thesis
    by (simp add: checkMinCLIVersion_result)
qed

theorem version_check_decides_witness:
  "fst (Execute_deferred (demo_env\<lparr>CheckerMaker_NewVersionChecker := Some (OtherError ''no checker'')\<rparr>)
          demo_state) = Some (OtherError ''no checker'') \<and>
   fst (Execute_deferred demo_env demo_state) = None"
proof -
  let ?e = "demo_env\<lparr>CheckerMaker_NewVersionChecker := Some (OtherError ''no checker'')\<rparr>"
  have a: "Config_UAAGrantType ?e \<noteq> ''client_credentials''"
          "Config_UAAGrantType demo_env \<noteq> ''client_credentials''"
          "\<not> (SSO (cmd demo_state) \<and> SSOPasscode (cmd demo_state) \<noteq> [])"
    by (simp_all add: demo_env_def demo_state_def demo_cmd_def)
  have b: "(if SSO (cmd demo_state) \<or> SSOPasscode (cmd demo_state) \<noteq> []
            then authenticateSSO ?e demo_state else authenticate ?e demo_state) = authenticate ?e demo_state"
          "(if SSO (cmd demo_state) \<or> SSOPasscode (cmd demo_state) \<noteq> []
            then authenticateSSO demo_env demo_state else authenticate demo_env demo_state)
             = authenticate demo_env demo_state"
    by (simp_all add: demo_state_def demo_cmd_def)
  have c: "fst (authenticate ?e demo_state) = None" "fst (authenticate demo_env demo_state) = None"
    by (simp_all add: exec_defs demo_defs eval_nat_numeral)
  have d: "fst (Execute_organization ?e (snd (authenticate ?e demo_state))) = None"
          "fst (Execute_organization demo_env (snd (authenticate demo_env demo_state))) = None"
    by (simp_all add: exec_defs demo_defs eval_nat_numeral emptyOrg_def)
  show ?thesis
    using version_check_decides [OF a(1) a(3) b(1) [symmetric] c(1) d(1), THEN conjunct2]
      version_check_decides [OF a(2) a(3) b(2) [symmetric] c(2) d(2), THEN conjunct2]
    by (simp add: demo_env_def)
qed

text \<open>
  The second attempt authenticates, an organization is chosen, and the version-check
  client cannot be built: \<open>Execute\<close> returns that error.
\<close>

theorem version_check_failure_aborts:
  "authResults (since demo_state (snd (Execute
       (demo_env\<lparr>CheckerMaker_NewVersionChecker := Some (OtherError ''no checker'')\<rparr>) demo_state)))
     = [Some (OtherError ''Bad credentials''), None] \<and>
   fst (Execute (demo_env\<lparr>CheckerMaker_NewVersionChecker := Some (OtherError ''no checker'')\<rparr>) demo_state)
     = Returns (Some (OtherError ''no checker''))"
  by (simp add: exec_defs demo_defs since_def authResults_def eval_nat_numeral emptyOrg_def)

section \<open>Target normalization\<close>






section \<open>The two SSO flags together\<close>

lemma showStatus_events:
  "\<exists>rows ev. log (showStatus e s) = log s @ [EvDisplayKeyValueTable [] rows 3, ev] \<and>
     \<not> credentialEvent ev"
  by (simp add: showStatus_def Let_def displayNotLoggedIn_def displayNotTargetted_def emit_def)

lemma target_not_credential: "list_all targetEvent evs \<Longrightarrow> list_all (\<lambda>ev. \<not> credentialEvent ev) evs"
proof (induction evs)
  case Nil
  then show ?case by simp
next
  case (Cons ev evs)
  then show ?case by (cases ev) simp_all
qed

lemma Execute_deferred_sso_both:
  assumes "SSO (cmd s)" and "SSOPasscode (cmd s) \<noteq> []"
  shows "Execute_deferred e s =
     (if Config_UAAGrantType e = ''client_credentials'' then
        (Some (ErrorString
           ''Service account currently logged in. Use 'cf logout' to log out service account and try again.''), s)
      else (Some (ArgumentCombinationError [''--sso-passcode'', ''--sso'']), s))"
  using assms by (simp add: Execute_deferred_def)

text \<open>
  Claim C4, as the code has it. With \<open>--sso\<close> and a passcode both given, no run of
  \<open>Execute\<close> reads the prompt schema, asks for a credential or submits one. The check
  of the combination stands in the deferred part (line 169): when the client has been
  rebuilt and the session holds no client-credentials grant, \<open>Execute\<close> returns the
  combination error. The target is set before that, and a run that ends earlier ends
  with the earlier error.
\<close>

theorem sso_flags_exclusive:
  assumes sso: "SSO (cmd s)" and pass: "SSOPasscode (cmd s) \<noteq> []"
  shows "list_all (\<lambda>ev. \<not> credentialEvent ev) (since s (snd (Execute e s))) \<and>
         (EvNewActor True None \<in> set (since s (snd (Execute e s))) \<and>
          Config_UAAGrantType e \<noteq> ''client_credentials'' \<longrightarrow>
            fst (Execute e s) = Returns (Some (ArgumentCombinationError [''--sso-passcode'', ''--sso''])))"
proof (cases "Config_ExperimentalLogin e")
  case False
  then show ?thesis by (simp add: Execute_def)
next
  case True
  let ?w = "EvDisplayWarning experimentalWarning"
  from Execute_shape [OF True, of s]
  consider (early) "adds targetEvent (emit ?w s) (snd (Execute e s))"
    | (reload) s3 err where "adds targetEvent (emit ?w s) s3"
        "Execute e s = (Returns (Some err), emit (EvNewActor True (Some err)) s3)"
    | (deferred) s3 where "adds targetEvent (emit ?w s) s3"
        "cmd s3 = (cmd s)\<lparr>APIEndpoint := APIEndpoint (cmd s3)\<rparr>"
        "Execute e s = (Returns (fst (Execute_deferred e (emit (EvNewActor True None) s3))),
                        showStatus e (snd (Execute_deferred e (emit (EvNewActor True None) s3))))"
    by blast
  then show ?thesis
  proof cases
    case early
    then obtain evs where "log (snd (Execute e s)) = log s @ ?w # evs" "list_all targetEvent evs"
      by (auto simp: adds_iff emit_def)
    then show ?thesis
      by (simp add: since_def target_not_credential target_not_rebuilt)
  next
    case reload
    then obtain evs where "log s3 = log s @ ?w # evs" "list_all targetEvent evs"
      by (auto simp: adds_iff emit_def)
    then show ?thesis using reload(2)
      by (simp add: since_def emit_def target_not_credential target_not_rebuilt)
  next
    case deferred
    let ?s4 = "emit (EvNewActor True None) s3"
    obtain evs where a: "log s3 = log s @ ?w # evs" "list_all targetEvent evs"
      using deferred(1) by (auto simp: adds_iff emit_def)
    have f: "SSO (cmd ?s4)" "SSOPasscode (cmd ?s4) \<noteq> []"
    proof -
      have "SSO (cmd s3) = SSO (cmd s)" "SSOPasscode (cmd s3) = SSOPasscode (cmd s)"
        by (subst deferred(2), simp)+
      then show "SSO (cmd ?s4)" "SSOPasscode (cmd ?s4) \<noteq> []"
        using sso pass by (simp_all add: emit_def)
    qed
    have d: "snd (Execute_deferred e ?s4) = ?s4"
      using Execute_deferred_sso_both [OF f, of e] by simp
    have r: "Config_UAAGrantType e \<noteq> ''client_credentials'' \<Longrightarrow>
        fst (Execute_deferred e ?s4) = Some (ArgumentCombinationError [''--sso-passcode'', ''--sso''])"
      using Execute_deferred_sso_both [OF f, of e] by simp
    obtain rows ev where c: "log (showStatus e ?s4) = log ?s4 @ [EvDisplayKeyValueTable [] rows 3, ev]"
        "\<not> credentialEvent ev"
      using showStatus_events by blast
    show ?thesis using a c r d deferred(3)
      by (simp add: since_def emit_def target_not_credential)
  qed
qed


theorem sso_flags_exclusive_witness:
  "fst (Execute demo_env (demo_state\<lparr>cmd := demo_cmd\<lparr>SSO := True, SSOPasscode := ''abc''\<rparr>\<rparr>))
     = Returns (Some (ArgumentCombinationError [''--sso-passcode'', ''--sso'']))"
proof -
  let ?s = "demo_state\<lparr>cmd := demo_cmd\<lparr>SSO := True, SSOPasscode := ''abc''\<rparr>\<rparr>"
  have a: "SSO (cmd ?s)" "SSOPasscode (cmd ?s) \<noteq> []"
    by simp_all
  have b: "EvNewActor True None \<in> set (since ?s (snd (Execute demo_env ?s)))"
    by (simp add: exec_defs demo_defs since_def)
  have c: "Config_UAAGrantType demo_env \<noteq> ''client_credentials''"
    by (simp add: demo_env_def)
  show ?thesis
    using sso_flags_exclusive [OF a, of demo_env] b c by blast
qed

text \<open>
  Both flags given. First run: the error is the combination error, and the target has
  been set before it. Second run, with the experimental flag off: the error is another.
\<close>

theorem sso_flags_checked_after_target:
  "fst (Execute demo_env (demo_state\<lparr>cmd := demo_cmd\<lparr>SSO := True, SSOPasscode := ''abc''\<rparr>\<rparr>))
     = Returns (Some (ArgumentCombinationError [''--sso-passcode'', ''--sso''])) \<and>
   take 5 (log (snd (Execute demo_env
       (demo_state\<lparr>cmd := demo_cmd\<lparr>SSO := True, SSOPasscode := ''abc''\<rparr>\<rparr>))))
     = [EvDisplayWarning experimentalWarning,
        EvDisplayTextWithFlavor ''API endpoint: {{.APIEndpoint}}'' [(''APIEndpoint'', ''api.example.com'')],
        EvDisplayNewline,
        EvSetTarget \<lparr>URL = ''https://api.example.com'', SkipSSLValidation = False\<rparr> None,
        EvNewActor True None] \<and>
   fst (Execute (demo_env\<lparr>Config_ExperimentalLogin := False\<rparr>)
          (demo_state\<lparr>cmd := demo_cmd\<lparr>SSO := True, SSOPasscode := ''abc''\<rparr>\<rparr>))
     = Returns (Some UnrefactoredCommandError)"
  by (simp add: exec_defs demo_defs experimentalWarning_def)

section \<open>The number of attempts\<close>

lemma authResults_append [simp]: "authResults (xs @ ys) = authResults xs @ authResults ys"
  by (simp add: authResults_def)

lemma authResults_Nil [simp]: "authResults [] = []"
  by (simp add: authResults_def)

lemma authResults_Cons: "authResults (ev # evs) = authResult ev @ authResults evs"
  by (simp add: authResults_def)

lemma collect_no_auth: "list_all collectEvent evs \<Longrightarrow> authResults evs = []"
proof (induction evs)
  case Nil
  then show ?case by simp
next
  case (Cons ev evs)
  then show ?case by (cases ev) (simp_all add: authResults_Cons)
qed

lemma attemptsWithin_Nil [simp]: "attemptsWithin b n []"
  by (simp add: attemptsWithin_def)

lemma attemptsWithin_single [simp]: "attemptsWithin b (Suc n) [r]"
  by (simp add: attemptsWithin_def)

lemma attemptsWithin_Cons:
  "retried b r \<Longrightarrow> attemptsWithin b n rs \<Longrightarrow> attemptsWithin b (Suc n) (r # rs)"
  by (cases rs) (simp_all add: attemptsWithin_def)

lemma Authenticate_log:
  "log (snd (Authenticate e c ori g s)) = log s @ [EvAuthenticate c ori g (fst (Authenticate e c ori g s))]"
  by (simp add: Authenticate_def Let_def emit_def)

lemma log_emit [simp]: "log (emit ev s) = log s @ [ev]"
  by (simp add: emit_def)

lemma cmd_emit [simp]: "cmd (emit ev s) = cmd s"
  by (simp add: emit_def)

lemma since_log: "log t = log s @ evs \<Longrightarrow> since s t = evs"
  by (simp add: since_def)

lemma authenticate_loop_attempts:
  "attemptsWithin True n
     (authResults (since s (snd (authenticate_loop n e prompts keys err credentials s))))"
proof (induction n arbitrary: err credentials s)
  case 0
  then show ?case by simp
next
  case (Suc n)
  let ?p = "passwordPrompts e prompts credentials keys s"
  obtain evs1 where p: "log (snd ?p) = log s @ evs1" "list_all collectEvent evs1"
    using adds_passwordPrompts [of s s e prompts credentials keys] by (auto simp: adds_iff)
  show ?case
  proof (cases "fst ?p")
    case (Inl err1)
    then show ?thesis using p
      by (simp add: case_prod_beta since_log [OF p(1)] collect_no_auth)
  next
    case (Inr pc)
    let ?a = "Authenticate e pc [] GrantTypePassword (emit (EvDisplayText ''Authenticating...'' []) (snd ?p))"
    have a: "log (snd ?a) = log s @ evs1 @ [EvDisplayText ''Authenticating...'' [],
               EvAuthenticate pc [] GrantTypePassword (fst ?a)]"
      by (simp add: Authenticate_log p(1))
    show ?thesis
    proof (cases "fst ?a")
      case None
      have "log (emit EvDisplayNewline (emit EvDisplayOK (snd ?a))) = log s @ evs1 @
          [EvDisplayText ''Authenticating...'' [], EvAuthenticate pc [] GrantTypePassword None,
           EvDisplayOK, EvDisplayNewline]"
        using a None by simp
      then show ?thesis using Inr None p(2)
        by (simp add: case_prod_beta since_log collect_no_auth authResults_Cons)
    next
      case (Some err1)
      let ?s3 = "emit EvDisplayNewline (emit (EvDisplayWarningError err1) (snd ?a))"
      have s3: "log ?s3 = log s @ evs1 @
          [EvDisplayText ''Authenticating...'' [], EvAuthenticate pc [] GrantTypePassword (Some err1),
           EvDisplayWarningError err1, EvDisplayNewline]"
        using a Some by simp
      show ?thesis
      proof (cases "isAccountLocked (Some err1)")
        case True
        then obtain m where "err1 = AccountLockedError m"
          by (cases err1) simp_all
        then show ?thesis using Inr Some s3 p(2)
          by (simp add: case_prod_beta Let_def since_log collect_no_auth authResults_Cons)
      next
        case False
        let ?l = "authenticate_loop n e prompts keys (Some err1) pc ?s3"
        obtain evs3 where l: "log (snd ?l) = log ?s3 @ evs3"
          using adds_authenticate_loop [of ?s3 ?s3 n e prompts keys "Some err1" pc]
          by (auto simp: adds_iff)
        have ih: "attemptsWithin True n (authResults evs3)"
          using Suc.IH [where s = ?s3 and err = "Some err1" and credentials = pc] by (simp add: since_log [OF l])
        have res: "snd (authenticate_loop (Suc n) e prompts keys err credentials s) = snd ?l"
          using Inr Some False by (cases err1) (simp_all add: case_prod_beta Let_def)
        have "log (snd ?l) = log s @ (evs1 @
          [EvDisplayText ''Authenticating...'' [], EvAuthenticate pc [] GrantTypePassword (Some err1),
           EvDisplayWarningError err1, EvDisplayNewline] @ evs3)"
          using l s3 by simp
        then have "authResults (since s (snd ?l)) = Some err1 # authResults evs3"
          using p(2) by (simp add: since_log collect_no_auth authResults_Cons)
        moreover have "retried True (Some err1)"
          using False by (simp add: retried_def)
        ultimately show ?thesis using ih res
          by (simp add: attemptsWithin_Cons)
      qed
    qed
  qed
qed


lemma authenticateSSO_loop_attempts:
  "attemptsWithin False n
     (authResults (since s (snd (authenticateSSO_loop n e prompts err credentials s))))"
proof (induction n arbitrary: err credentials s)
  case 0
  then show ?case by simp
next
  case (Suc n)
  let ?p = "authenticateSSO_passcode e prompts credentials s"
  obtain evs1 where p: "log (snd ?p) = log s @ evs1" "list_all collectEvent evs1"
    using adds_authenticateSSO_passcode [of s s e prompts credentials] by (auto simp: adds_iff)
  show ?case
  proof (cases "fst ?p")
    case (Inl err1)
    then show ?thesis using p
      by (simp add: case_prod_beta since_log [OF p(1)] collect_no_auth)
  next
    case (Inr pc)
    let ?a = "Authenticate e pc [] GrantTypePassword (emit (EvDisplayText ''Authenticating...'' []) (snd ?p))"
    have a: "log (snd ?a) = log s @ evs1 @ [EvDisplayText ''Authenticating...'' [],
               EvAuthenticate pc [] GrantTypePassword (fst ?a)]"
      by (simp add: Authenticate_log p(1))
    show ?thesis
    proof (cases "fst ?a")
      case None
      have "log (emit EvDisplayNewline (emit EvDisplayOK (snd ?a))) = log s @ evs1 @
          [EvDisplayText ''Authenticating...'' [], EvAuthenticate pc [] GrantTypePassword None,
           EvDisplayOK, EvDisplayNewline]"
        using a None by simp
      then show ?thesis using Inr None p(2)
        by (simp add: case_prod_beta since_log collect_no_auth authResults_Cons)
    next
      case (Some err1)
      let ?s3 = "emit EvDisplayNewline (emit (EvDisplayWarningError err1) (snd ?a))"
      have s3: "log ?s3 = log s @ evs1 @
          [EvDisplayText ''Authenticating...'' [], EvAuthenticate pc [] GrantTypePassword (Some err1),
           EvDisplayWarningError err1, EvDisplayNewline]"
        using a Some by simp
      let ?l = "authenticateSSO_loop n e prompts (Some err1) pc ?s3"
      obtain evs3 where l: "log (snd ?l) = log ?s3 @ evs3"
        using adds_authenticateSSO_loop [of ?s3 ?s3 n e prompts "Some err1" pc]
        by (auto simp: adds_iff)
      have ih: "attemptsWithin False n (authResults evs3)"
        using Suc.IH [where s = ?s3 and err = "Some err1" and credentials = pc]
        by (simp add: since_log [OF l])
      have res: "snd (authenticateSSO_loop (Suc n) e prompts err credentials s) = snd ?l"
        using Inr Some by (simp add: case_prod_beta)
      have "log (snd ?l) = log s @ (evs1 @
        [EvDisplayText ''Authenticating...'' [], EvAuthenticate pc [] GrantTypePassword (Some err1),
         EvDisplayWarningError err1, EvDisplayNewline] @ evs3)"
        using l s3 by simp
      then have "authResults (since s (snd ?l)) = Some err1 # authResults evs3"
        using p(2) by (simp add: since_log collect_no_auth authResults_Cons)
      moreover have "retried False (Some err1)"
        by (simp add: retried_def)
      ultimately show ?thesis using ih res
        by (simp add: attemptsWithin_Cons)
    qed
  qed
qed

lemma attemptsWithin_once:
  assumes "attemptsWithin b n rs" and "rs \<noteq> []" and "hd rs = None \<or> (b \<and> isAccountLocked (hd rs))"
  shows "length rs = 1"
proof (cases rs)
  case Nil
  then show ?thesis using assms(2) by simp
next
  case (Cons r rs')
  show ?thesis
  proof (cases rs')
    case Nil
    then show ?thesis using Cons by simp
  next
    case (Cons r' rs'')
    then have "retried b r"
      using assms(1) \<open>rs = r # rs'\<close> by (simp add: attemptsWithin_def)
    then show ?thesis using assms(3) \<open>rs = r # rs'\<close>
      by (auto simp: retried_def)
  qed
qed

text \<open>
  The password flow submits at most three times, and once only when the first answer
  is a success or an account lock.
\<close>

lemma authenticate_attempts:
  "attemptsWithin True maxLoginTries (authResults (since s (snd (authenticate e s))))"
proof -
  let ?ps = "Actor_GetLoginPrompts e"
  let ?s0 = "emit EvGetLoginPrompts s"
  let ?u = "authenticate_username e ?ps ?s0"
  obtain evs1 where u: "log (snd ?u) = log ?s0 @ evs1" "list_all collectEvent evs1"
    using adds_authenticate_username [of ?s0 ?s0 e ?ps] by (auto simp: adds_iff)
  show ?thesis
  proof (cases "fst ?u")
    case (Inl err)
    have "log (snd ?u) = log s @ EvGetLoginPrompts # evs1"
      using u(1) by simp
    then show ?thesis using Inl u(2)
      by (simp add: authenticate_def Let_def case_prod_beta since_log collect_no_auth authResults_Cons)
  next
    case (Inr c)
    let ?r = "authenticate_range e ?ps c [] (snd ?u)"
    obtain evs2 where r: "log (snd ?r) = log (snd ?u) @ evs2" "list_all collectEvent evs2"
      using adds_authenticate_range [of "snd ?u" "snd ?u" e ?ps c "[]"] by (auto simp: adds_iff)
    show ?thesis
    proof (cases "fst ?r")
      case (Inl err)
      have "log (snd ?r) = log s @ EvGetLoginPrompts # evs1 @ evs2"
        using u(1) r(1) by simp
      then show ?thesis using Inl Inr u(2) r(2)
        by (simp add: authenticate_def Let_def case_prod_beta since_log collect_no_auth authResults_Cons)
    next
      case (Inr ck)
      let ?l = "authenticate_loop maxLoginTries e ?ps (snd ck) None (fst ck) (snd ?r)"
      obtain evs3 where l: "log (snd ?l) = log (snd ?r) @ evs3"
        using adds_authenticate_loop [of "snd ?r" "snd ?r" maxLoginTries e ?ps "snd ck" None "fst ck"]
        by (auto simp: adds_iff)
      have "attemptsWithin True maxLoginTries (authResults evs3)"
        using authenticate_loop_attempts [of maxLoginTries "snd ?r" e ?ps "snd ck" None "fst ck"]
        by (simp add: since_log [OF l])
      moreover have "log (snd ?l) = log s @ EvGetLoginPrompts # evs1 @ evs2 @ evs3"
        using u(1) r(1) l by simp
      moreover have "snd (authenticate e s) = snd ?l"
        using Inr \<open>fst ?u = Inr c\<close> by (simp add: authenticate_def Let_def case_prod_beta)
      ultimately show ?thesis using u(2) r(2)
        by (simp add: since_log collect_no_auth authResults_Cons)
    qed
  qed
qed

text \<open>
  The SSO flow submits at most three times, and once only when the first answer is a
  success. Its loop has no branch for the account lock.
\<close>

lemma authenticateSSO_attempts:
  "attemptsWithin False maxLoginTries (authResults (since s (snd (authenticateSSO e s))))"
proof -
  let ?s0 = "emit EvGetLoginPrompts s"
  let ?l = "authenticateSSO_loop maxLoginTries e (Actor_GetLoginPrompts e) None Map.empty ?s0"
  obtain evs where l: "log (snd ?l) = log ?s0 @ evs"
    using adds_authenticateSSO_loop [of ?s0 ?s0 maxLoginTries e "Actor_GetLoginPrompts e" None Map.empty]
    by (auto simp: adds_iff)
  have "attemptsWithin False maxLoginTries (authResults evs)"
    using authenticateSSO_loop_attempts [of maxLoginTries ?s0 e "Actor_GetLoginPrompts e" None Map.empty]
    by (simp add: since_log [OF l])
  moreover have "log (snd ?l) = log s @ EvGetLoginPrompts # evs"
    using l by simp
  ultimately show ?thesis
    by (simp add: authenticateSSO_def since_log authResults_Cons)
qed

lemma login_attempts:
  "length (authResults (since s (snd (authenticate e s)))) \<le> 3 \<and>
   length (authResults (since s (snd (authenticateSSO e s)))) \<le> 3 \<and>
   (authResults (since s (snd (authenticate e s))) \<noteq> [] \<and>
    (hd (authResults (since s (snd (authenticate e s)))) = None \<or>
     isAccountLocked (hd (authResults (since s (snd (authenticate e s))))))
      \<longrightarrow> length (authResults (since s (snd (authenticate e s)))) = 1) \<and>
   (authResults (since s (snd (authenticateSSO e s))) \<noteq> [] \<and>
    hd (authResults (since s (snd (authenticateSSO e s)))) = None
      \<longrightarrow> length (authResults (since s (snd (authenticateSSO e s)))) = 1)"
  using authenticate_attempts [of s e] authenticateSSO_attempts [of s e]
    attemptsWithin_once [of True maxLoginTries "authResults (since s (snd (authenticate e s)))"]
    attemptsWithin_once [of False maxLoginTries "authResults (since s (snd (authenticateSSO e s)))"]
  by (auto simp: attemptsWithin_def maxLoginTries_def)

text \<open>
  Claim C1 at the input where the code departs from it: the SSO flow, every submission
  answered with an account lock. The flow submits three times; the password flow, with
  the same answers, submits once.
\<close>

theorem sso_retries_after_account_lock:
  "authResults (since (demo_state\<lparr>cmd := demo_cmd\<lparr>SSO := True\<rparr>\<rparr>)
      (snd (authenticateSSO
              (demo_env\<lparr>Actor_Authenticate := (\<lambda>h credentials. Some (AccountLockedError ''locked''))\<rparr>)
              (demo_state\<lparr>cmd := demo_cmd\<lparr>SSO := True\<rparr>\<rparr>))))
     = [Some (AccountLockedError ''locked''), Some (AccountLockedError ''locked''),
        Some (AccountLockedError ''locked'')] \<and>
   authResults (since demo_state
      (snd (authenticate
              (demo_env\<lparr>Actor_Authenticate := (\<lambda>h credentials. Some (AccountLockedError ''locked''))\<rparr>)
              demo_state)))
     = [Some (AccountLockedError ''locked'')]"
  by (simp add: exec_defs demo_defs since_def authResults_def eval_nat_numeral)

section \<open>A failed read ends the authentication\<close>

lemma noReadFailure_simps [simp]:
  "noReadFailure []"
  "noReadFailure (ev # evs) \<longleftrightarrow> readFailure ev = None \<and> noReadFailure evs"
  "noReadFailure (xs @ ys) \<longleftrightarrow> noReadFailure xs \<and> noReadFailure ys"
  by (simp_all add: noReadFailure_def)

lemma failsLast_append: "noReadFailure pre \<Longrightarrow> failsLast err evs \<Longrightarrow> failsLast err (pre @ evs)"
  by (simp add: failsLast_def butlast_append)

lemma collected_append: "noReadFailure pre \<Longrightarrow> collected res evs \<Longrightarrow> collected res (pre @ evs)"
  by (cases res) (simp_all add: collected_def failsLast_append)

lemma collected_simps [simp]:
  "collected (Inl err) evs = failsLast err evs"
  "collected (Inr x) evs = noReadFailure evs"
  by (simp_all add: collected_def)

lemma stops_clean: "noReadFailure evs \<Longrightarrow> stopsAtFailure r evs"
proof (cases evs rule: rev_cases)
  case Nil
  then show ?thesis by (simp add: stopsAtFailure_def)
next
  case (snoc pre ev)
  assume "noReadFailure evs"
  then show ?thesis using snoc by (simp add: stopsAtFailure_def)
qed

lemma stops_failsLast: "failsLast err evs \<Longrightarrow> stopsAtFailure (Some err) evs"
  by (simp add: failsLast_def stopsAtFailure_def)

lemma stops_append: "noReadFailure pre \<Longrightarrow> stopsAtFailure r evs \<Longrightarrow> stopsAtFailure r (pre @ evs)"
proof (cases "evs = []")
  case True
  assume "noReadFailure pre"
  then show ?thesis using True by (simp add: stops_clean)
next
  case False
  assume "noReadFailure pre" "stopsAtFailure r evs"
  then show ?thesis using False by (simp add: stopsAtFailure_def butlast_append)
qed

lemma stops_collected_Inl: "collected (Inl err) evs \<Longrightarrow> stopsAtFailure (Some err) evs"
  by (simp add: collected_def stops_failsLast)

lemma since_emit [simp]: "adds P s t \<Longrightarrow> since s (emit ev t) = since s t @ [ev]"
  by (auto simp: adds_iff since_def)

lemma since_step: "adds P s t \<Longrightarrow> log u = log t @ evs \<Longrightarrow> since s u = since s t @ evs"
  by (auto simp: adds_iff since_def)

lemma collected_DisplayTextPrompt:
  "collected (fst (DisplayTextPrompt e name s)) (since s (snd (DisplayTextPrompt e name s)))"
  by (cases "UI_DisplayTextPrompt e (log s) name")
     (simp_all add: DisplayTextPrompt_def Let_def since_def collected_def failsLast_def)

lemma collected_DisplayPasswordPrompt:
  "collected (fst (DisplayPasswordPrompt e name s)) (since s (snd (DisplayPasswordPrompt e name s)))"
  by (cases "UI_DisplayPasswordPrompt e (log s) name")
     (simp_all add: DisplayPasswordPrompt_def Let_def since_def collected_def failsLast_def)

lemma adds_collect_DisplayPasswordPrompt: "adds collectEvent s (snd (DisplayPasswordPrompt e name s))"
  by (simp add: adds_DisplayPasswordPrompt)

lemma adds_collect_DisplayTextPrompt: "adds collectEvent s (snd (DisplayTextPrompt e name s))"
  by (simp add: adds_DisplayTextPrompt)

lemma collected_passwordPrompts_keys:
  "collected (fst (passwordPrompts_keys e prompts credentials keys s))
     (since s (snd (passwordPrompts_keys e prompts credentials keys s)))"
proof (induction keys arbitrary: credentials s)
  case Nil
  then show ?case by (simp add: collected_def)
next
  case (Cons key keys)
  let ?s1 = "emit EvDisplayNewline s"
  let ?p = "DisplayPasswordPrompt e (promptDisplayName prompts key) ?s1"
  have a1: "adds collectEvent s ?s1"
    by (simp add: adds_emit)
  have a2: "adds collectEvent ?s1 (snd ?p)"
    by (rule adds_collect_DisplayPasswordPrompt)
  have c: "collected (fst ?p) (since ?s1 (snd ?p))"
    by (rule collected_DisplayPasswordPrompt)
  have s1: "since s (snd ?p) = EvDisplayNewline # since ?s1 (snd ?p)"
    using since_trans [OF a1 a2] by (simp add: since_def)
  show ?case
  proof (cases "fst ?p")
    case (Inl err)
    have "collected (fst ?p) ([EvDisplayNewline] @ since ?s1 (snd ?p))"
      using c by (rule collected_append [rotated]) simp
    then show ?thesis using Inl s1
      by (simp add: case_prod_beta)
  next
    case (Inr v)
    let ?k = "passwordPrompts_keys e prompts (credentials(key \<mapsto> v)) keys (snd ?p)"
    have a3: "adds collectEvent (snd ?p) (snd ?k)"
      by (rule adds_passwordPrompts_keys) simp
    have eq: "since s (snd ?k) = since s (snd ?p) @ since (snd ?p) (snd ?k)"
      using since_trans [OF adds_trans [OF a1 a2] a3] .
    have clean: "noReadFailure (since s (snd ?p))"
      using c s1 Inr by simp
    have ih: "collected (fst ?k) (since (snd ?p) (snd ?k))"
      by (rule Cons.IH)
    have "collected (fst ?k) (since s (snd ?p) @ since (snd ?p) (snd ?k))"
      using clean ih by (rule collected_append)
    then have "collected (fst ?k) (since s (snd ?k))"
      by (simp only: eq)
    moreover have "passwordPrompts_keys e prompts credentials (key # keys) s = ?k"
      using Inr by (simp add: case_prod_beta)
    ultimately show ?thesis
      by (simp only:)
  qed
qed


lemma collected_seq:
  assumes "adds P s t" and "adds Q t u" and "noReadFailure (since s t)" and "collected res (since t u)"
  shows "collected res (since s u)"
  unfolding since_trans [OF assms(1,2)] using assms(3,4) by (rule collected_append)

lemma stops_seq:
  assumes "adds P s t" and "adds Q t u" and "noReadFailure (since s t)" and "stopsAtFailure r (since t u)"
  shows "stopsAtFailure r (since s u)"
  unfolding since_trans [OF assms(1,2)] using assms(3,4) by (rule stops_append)

lemma since_cmd [simp]: "since s (t\<lparr>cmd := c\<rparr>) = since s t"
  by (simp add: since_def)

lemma collected_passwordPrompts_password:
  "collected (fst (passwordPrompts_password e prompts credentials s))
     (since s (snd (passwordPrompts_password e prompts credentials s)))"
proof (cases "map_of prompts ''password''")
  case None
  then show ?thesis by (simp add: passwordPrompts_password_def)
next
  case (Some passPrompt)
  show ?thesis
  proof (cases "Password (cmd s) \<noteq> []")
    case True
    then show ?thesis using Some by (simp add: passwordPrompts_password_def)
  next
    case False
    let ?p = "DisplayPasswordPrompt e (DisplayName passPrompt) s"
    have "collected (fst ?p) (since s (snd ?p))"
      by (rule collected_DisplayPasswordPrompt)
    then show ?thesis using Some False
      by (cases "fst ?p") (simp_all add: passwordPrompts_password_def case_prod_beta)
  qed
qed

lemma collected_passwordPrompts:
  "collected (fst (passwordPrompts e prompts credentials keys s))
     (since s (snd (passwordPrompts e prompts credentials keys s)))"
proof -
  let ?p = "passwordPrompts_password e prompts credentials s"
  have a: "adds collectEvent s (snd ?p)"
    by (rule adds_passwordPrompts_password) simp
  have c: "collected (fst ?p) (since s (snd ?p))"
    by (rule collected_passwordPrompts_password)
  show ?thesis
  proof (cases "fst ?p")
    case (Inl err)
    then show ?thesis using c by (simp add: passwordPrompts_def case_prod_beta)
  next
    case (Inr c1)
    let ?k = "passwordPrompts_keys e prompts c1 keys (snd ?p)"
    have "adds collectEvent (snd ?p) (snd ?k)"
      by (rule adds_passwordPrompts_keys) simp
    moreover have "noReadFailure (since s (snd ?p))"
      using c Inr by simp
    moreover have "collected (fst ?k) (since (snd ?p) (snd ?k))"
      by (rule collected_passwordPrompts_keys)
    ultimately have "collected (fst ?k) (since s (snd ?k))"
      using a by (blast intro: collected_seq)
    moreover have "passwordPrompts e prompts credentials keys s = ?k"
      using Inr by (simp add: passwordPrompts_def case_prod_beta)
    ultimately show ?thesis by (simp only:)
  qed
qed

lemma collected_authenticateSSO_passcode:
  "collected (fst (authenticateSSO_passcode e prompts credentials s))
     (since s (snd (authenticateSSO_passcode e prompts credentials s)))"
proof (cases "length (SSOPasscode (cmd s)) > 0")
  case True
  then show ?thesis by (simp add: authenticateSSO_passcode_def)
next
  case False
  let ?p = "DisplayPasswordPrompt e (promptDisplayName prompts ''passcode'') s"
  have "collected (fst ?p) (since s (snd ?p))"
    by (rule collected_DisplayPasswordPrompt)
  then show ?thesis using False
    by (cases "fst ?p") (simp_all add: authenticateSSO_passcode_def case_prod_beta)
qed

lemma collected_authenticate_username:
  "collected (fst (authenticate_username e prompts s))
     (since s (snd (authenticate_username e prompts s)))"
proof (cases "map_of prompts ''username''")
  case None
  then show ?thesis by (simp add: authenticate_username_def)
next
  case (Some v)
  show ?thesis
  proof (cases "Type v = AuthPromptTypeText \<and> Username (cmd s) \<noteq> []")
    case True
    then show ?thesis using Some by (simp add: authenticate_username_def)
  next
    case False
    let ?p = "DisplayTextPrompt e (DisplayName v) s"
    have a: "adds collectEvent s (snd ?p)"
      by (rule adds_collect_DisplayTextPrompt)
    have "collected (fst ?p) (since s (snd ?p))"
      by (rule collected_DisplayTextPrompt)
    then show ?thesis using Some False since_emit [OF a]
      by (cases "fst ?p") (simp_all add: authenticate_username_def case_prod_beta)
  qed
qed

lemma collected_authenticate_range:
  "collected (fst (authenticate_range e prompts credentials keys s))
     (since s (snd (authenticate_range e prompts credentials keys s)))"
proof (induction prompts arbitrary: credentials keys s)
  case Nil
  then show ?case by simp
next
  case (Cons kp rest)
  obtain key prompt where kp: "kp = (key, prompt)" by (cases kp)
  show ?case
  proof (cases "Type prompt = AuthPromptTypePassword \<or> key = ''username''")
    case True
    then show ?thesis using Cons.IH by (auto simp: kp)
  next
    case False
    let ?p = "DisplayTextPrompt e (DisplayName prompt) s"
    have a: "adds collectEvent s (snd ?p)"
      by (rule adds_collect_DisplayTextPrompt)
    have c: "collected (fst ?p) (since s (snd ?p))"
      by (rule collected_DisplayTextPrompt)
    show ?thesis
    proof (cases "fst ?p")
      case (Inl err)
      then show ?thesis using c False by (simp add: kp case_prod_beta)
    next
      case (Inr v)
      let ?s1 = "emit EvDisplayNewline (snd ?p)"
      let ?k = "authenticate_range e rest (credentials(key \<mapsto> v)) keys ?s1"
      have a1: "adds collectEvent s ?s1"
        using a by (simp add: adds_emit)
      have a2: "adds collectEvent ?s1 (snd ?k)"
        by (rule adds_authenticate_range) simp
      have clean: "noReadFailure (since s ?s1)"
        using c Inr since_emit [OF a] by simp
      have ih: "collected (fst ?k) (since ?s1 (snd ?k))"
        by (rule Cons.IH)
      have "collected (fst ?k) (since s (snd ?k))"
        using a1 a2 clean ih by (rule collected_seq)
      moreover have "authenticate_range e (kp # rest) credentials keys s = ?k"
        using Inr False by (simp add: kp case_prod_beta)
      ultimately show ?thesis by (simp only:)
    qed
  qed
qed

lemma stops_authenticate_loop:
  "stopsAtFailure (fst (authenticate_loop n e prompts keys err credentials s))
     (since s (snd (authenticate_loop n e prompts keys err credentials s)))"
proof (induction n arbitrary: err credentials s)
  case 0
  then show ?case by (simp add: stops_clean)
next
  case (Suc n)
  let ?p = "passwordPrompts e prompts credentials keys s"
  have ap: "adds collectEvent s (snd ?p)"
    by (rule adds_passwordPrompts) simp
  have cp: "collected (fst ?p) (since s (snd ?p))"
    by (rule collected_passwordPrompts)
  show ?case
  proof (cases "fst ?p")
    case (Inl err1)
    then show ?thesis using cp by (simp add: case_prod_beta stops_failsLast)
  next
    case (Inr pc)
    let ?a = "Authenticate e pc [] GrantTypePassword (emit (EvDisplayText ''Authenticating...'' []) (snd ?p))"
    have la: "log (snd ?a) = log (snd ?p) @ [EvDisplayText ''Authenticating...'' [],
               EvAuthenticate pc [] GrantTypePassword (fst ?a)]"
      by (simp add: Authenticate_log)
    have clean: "noReadFailure (since s (snd ?p))"
      using cp Inr by simp
    show ?thesis
    proof (cases "fst ?a")
      case None
      let ?f = "emit EvDisplayNewline (emit EvDisplayOK (snd ?a))"
      have lf: "log ?f = log (snd ?p) @ [EvDisplayText ''Authenticating...'' [],
               EvAuthenticate pc [] GrantTypePassword None, EvDisplayOK, EvDisplayNewline]"
        using la None by simp
      have "noReadFailure (since s ?f)"
        using clean by (simp add: since_step [OF ap lf])
      then show ?thesis using Inr None
        by (simp add: case_prod_beta stops_clean)
    next
      case (Some err1)
      let ?s3 = "emit EvDisplayNewline (emit (EvDisplayWarningError err1) (snd ?a))"
      have l3: "log ?s3 = log (snd ?p) @ [EvDisplayText ''Authenticating...'' [],
               EvAuthenticate pc [] GrantTypePassword (Some err1), EvDisplayWarningError err1,
               EvDisplayNewline]"
        using la Some by simp
      have clean3: "noReadFailure (since s ?s3)"
        using clean by (simp add: since_step [OF ap l3])
      have "adds authEvent s (snd ?p)"
        using ap by (rule adds_mono) (rule collect_auth)
      then have "adds authEvent s (snd ?a)"
        by (simp add: adds_Authenticate adds_emit)
      then have a3: "adds authEvent s ?s3"
        by (simp add: adds_emit)
      show ?thesis
      proof (cases "isAccountLocked (Some err1)")
        case True
        then obtain m where "err1 = AccountLockedError m"
          by (cases err1) simp_all
        then show ?thesis using Inr Some clean3
          by (simp add: case_prod_beta Let_def stops_clean)
      next
        case False
        let ?l = "authenticate_loop n e prompts keys (Some err1) pc ?s3"
        have al: "adds authEvent ?s3 (snd ?l)"
          by (rule adds_authenticate_loop) simp
        have ih: "stopsAtFailure (fst ?l) (since ?s3 (snd ?l))"
          by (rule Suc.IH)
        have "stopsAtFailure (fst ?l) (since s (snd ?l))"
          using a3 al clean3 ih by (rule stops_seq)
        moreover have "authenticate_loop (Suc n) e prompts keys err credentials s = ?l"
          using Inr Some False by (cases err1) (simp_all add: case_prod_beta Let_def)
        ultimately show ?thesis by (simp only:)
      qed
    qed
  qed
qed

lemma stops_authenticateSSO_loop:
  "stopsAtFailure (fst (authenticateSSO_loop n e prompts err credentials s))
     (since s (snd (authenticateSSO_loop n e prompts err credentials s)))"
proof (induction n arbitrary: err credentials s)
  case 0
  then show ?case by (simp add: stops_clean)
next
  case (Suc n)
  let ?p = "authenticateSSO_passcode e prompts credentials s"
  have ap: "adds collectEvent s (snd ?p)"
    by (rule adds_authenticateSSO_passcode) simp
  have cp: "collected (fst ?p) (since s (snd ?p))"
    by (rule collected_authenticateSSO_passcode)
  show ?case
  proof (cases "fst ?p")
    case (Inl err1)
    then show ?thesis using cp by (simp add: case_prod_beta stops_failsLast)
  next
    case (Inr pc)
    let ?a = "Authenticate e pc [] GrantTypePassword (emit (EvDisplayText ''Authenticating...'' []) (snd ?p))"
    have la: "log (snd ?a) = log (snd ?p) @ [EvDisplayText ''Authenticating...'' [],
               EvAuthenticate pc [] GrantTypePassword (fst ?a)]"
      by (simp add: Authenticate_log)
    have clean: "noReadFailure (since s (snd ?p))"
      using cp Inr by simp
    show ?thesis
    proof (cases "fst ?a")
      case None
      let ?f = "emit EvDisplayNewline (emit EvDisplayOK (snd ?a))"
      have lf: "log ?f = log (snd ?p) @ [EvDisplayText ''Authenticating...'' [],
               EvAuthenticate pc [] GrantTypePassword None, EvDisplayOK, EvDisplayNewline]"
        using la None by simp
      have "noReadFailure (since s ?f)"
        using clean by (simp add: since_step [OF ap lf])
      then show ?thesis using Inr None
        by (simp add: case_prod_beta stops_clean)
    next
      case (Some err1)
      let ?s3 = "emit EvDisplayNewline (emit (EvDisplayWarningError err1) (snd ?a))"
      have l3: "log ?s3 = log (snd ?p) @ [EvDisplayText ''Authenticating...'' [],
               EvAuthenticate pc [] GrantTypePassword (Some err1), EvDisplayWarningError err1,
               EvDisplayNewline]"
        using la Some by simp
      have clean3: "noReadFailure (since s ?s3)"
        using clean by (simp add: since_step [OF ap l3])
      have "adds authEvent s (snd ?p)"
        using ap by (rule adds_mono) (rule collect_auth)
      then have "adds authEvent s (snd ?a)"
        by (simp add: adds_Authenticate adds_emit)
      then have a3: "adds authEvent s ?s3"
        by (simp add: adds_emit)
      let ?l = "authenticateSSO_loop n e prompts (Some err1) pc ?s3"
      have al: "adds authEvent ?s3 (snd ?l)"
        by (rule adds_authenticateSSO_loop) simp
      have ih: "stopsAtFailure (fst ?l) (since ?s3 (snd ?l))"
        by (rule Suc.IH)
      have "stopsAtFailure (fst ?l) (since s (snd ?l))"
        using a3 al clean3 ih by (rule stops_seq)
      moreover have "authenticateSSO_loop (Suc n) e prompts err credentials s = ?l"
        using Inr Some by (simp add: case_prod_beta)
      ultimately show ?thesis by (simp only:)
    qed
  qed
qed

lemma stops_authenticateSSO:
  "stopsAtFailure (fst (authenticateSSO e s)) (since s (snd (authenticateSSO e s)))"
proof -
  let ?s0 = "emit EvGetLoginPrompts s"
  let ?l = "authenticateSSO_loop maxLoginTries e (Actor_GetLoginPrompts e) None Map.empty ?s0"
  have "adds authEvent s ?s0"
    by (simp add: adds_emit)
  moreover have "adds authEvent ?s0 (snd ?l)"
    by (rule adds_authenticateSSO_loop) simp
  moreover have "noReadFailure (since s ?s0)"
    by (simp add: since_def)
  moreover have "stopsAtFailure (fst ?l) (since ?s0 (snd ?l))"
    by (rule stops_authenticateSSO_loop)
  ultimately have "stopsAtFailure (fst ?l) (since s (snd ?l))"
    by (rule stops_seq)
  then show ?thesis by (simp add: authenticateSSO_def)
qed

lemma stops_authenticate:
  "stopsAtFailure (fst (authenticate e s)) (since s (snd (authenticate e s)))"
proof -
  let ?ps = "Actor_GetLoginPrompts e"
  let ?s0 = "emit EvGetLoginPrompts s"
  let ?u = "authenticate_username e ?ps ?s0"
  have a0: "adds authEvent s ?s0"
    by (simp add: adds_emit)
  have c0: "noReadFailure (since s ?s0)"
    by (simp add: since_def)
  have au: "adds authEvent ?s0 (snd ?u)"
    using adds_authenticate_username [of ?s0 ?s0 e ?ps] by (auto intro: adds_mono collect_auth)
  have cu: "collected (fst ?u) (since ?s0 (snd ?u))"
    by (rule collected_authenticate_username)
  have su: "collected (fst ?u) (since s (snd ?u))"
    using a0 au c0 cu by (rule collected_seq)
  show ?thesis
  proof (cases "fst ?u")
    case (Inl err)
    then show ?thesis using su
      by (simp add: authenticate_def Let_def case_prod_beta stops_failsLast)
  next
    case (Inr c)
    let ?r = "authenticate_range e ?ps c [] (snd ?u)"
    have asu: "adds authEvent s (snd ?u)"
      using a0 au by (rule adds_trans)
    have ar: "adds authEvent (snd ?u) (snd ?r)"
      using adds_authenticate_range [of "snd ?u" "snd ?u" e ?ps c "[]"]
      by (auto intro: adds_mono collect_auth)
    have cr: "collected (fst ?r) (since (snd ?u) (snd ?r))"
      by (rule collected_authenticate_range)
    have clean: "noReadFailure (since s (snd ?u))"
      using su Inr by simp
    have sr: "collected (fst ?r) (since s (snd ?r))"
      using asu ar clean cr by (rule collected_seq)
    show ?thesis
    proof (cases "fst ?r")
      case (Inl err)
      then show ?thesis using sr Inr
        by (simp add: authenticate_def Let_def case_prod_beta stops_failsLast)
    next
      case (Inr ck)
      let ?l = "authenticate_loop maxLoginTries e ?ps (snd ck) None (fst ck) (snd ?r)"
      have "adds authEvent s (snd ?r)"
        using asu ar by (rule adds_trans)
      moreover have "adds authEvent (snd ?r) (snd ?l)"
        by (rule adds_authenticate_loop) simp
      moreover have "noReadFailure (since s (snd ?r))"
        using sr Inr by simp
      moreover have "stopsAtFailure (fst ?l) (since (snd ?r) (snd ?l))"
        by (rule stops_authenticate_loop)
      ultimately have "stopsAtFailure (fst ?l) (since s (snd ?l))"
        by (rule stops_seq)
      moreover have "authenticate e s = ?l"
        using Inr \<open>fst ?u = Inr c\<close> by (simp add: authenticate_def Let_def case_prod_beta)
      ultimately show ?thesis by (simp only:)
    qed
  qed
qed

text \<open>
  Claim C5, as the code has it. In both flows a failed read of a credential is the
  last event of the authentication: nothing is asked or submitted after it, the
  attempt is not retried, and the flow returns the error of the read. \<open>Execute\<close>
  does not pass that error on: whatever error the authentication returns, the part
  after it returns the one error "Unable to authenticate." (lines 177-179) and runs
  neither the organization stage nor the version check.
\<close>

theorem read_failure_ends_authentication:
  "stopsAtFailure (fst (authenticate e s)) (since s (snd (authenticate e s))) \<and>
   stopsAtFailure (fst (authenticateSSO e s)) (since s (snd (authenticateSSO e s))) \<and>
   (fst a \<noteq> None \<longrightarrow>
      Execute_afterAuth e a = (Some (ErrorString ''Unable to authenticate.''), snd a))"
proof (intro conjI impI)
  show "stopsAtFailure (fst (authenticate e s)) (since s (snd (authenticate e s)))"
    by (rule stops_authenticate)
  show "stopsAtFailure (fst (authenticateSSO e s)) (since s (snd (authenticateSSO e s)))"
    by (rule stops_authenticateSSO)
  show "Execute_afterAuth e a = (Some (ErrorString ''Unable to authenticate.''), snd a)"
    if "fst a \<noteq> None"
    using that by (cases a) (auto simp: Execute_afterAuth_def)
qed

theorem read_failure_ends_authentication_witness:
  "since demo_state (snd (authenticate
      (demo_env\<lparr>UI_DisplayPasswordPrompt := (\<lambda>h name. Inl EOF)\<rparr>) demo_state))
     = [EvGetLoginPrompts, EvDisplayTextPrompt ''Email'' (Inr ''alice''), EvDisplayNewline,
        EvDisplayNewline, EvDisplayPasswordPrompt ''MFA Code'' (Inl EOF)] \<and>
   stopsAtFailure (Some EOF)
     [EvGetLoginPrompts, EvDisplayTextPrompt ''Email'' (Inr ''alice''), EvDisplayNewline,
      EvDisplayNewline, EvDisplayPasswordPrompt ''MFA Code'' (Inl EOF)] \<and>
   fst (Execute_afterAuth (demo_env\<lparr>UI_DisplayPasswordPrompt := (\<lambda>h name. Inl EOF)\<rparr>)
          (authenticate (demo_env\<lparr>UI_DisplayPasswordPrompt := (\<lambda>h name. Inl EOF)\<rparr>) demo_state))
     = Some (ErrorString ''Unable to authenticate.'')"
proof -
  let ?e = "demo_env\<lparr>UI_DisplayPasswordPrompt := (\<lambda>h name. Inl EOF)\<rparr>"
  have r: "fst (authenticate ?e demo_state) = Some EOF"
    by (simp add: exec_defs demo_defs eval_nat_numeral)
  have evs: "since demo_state (snd (authenticate ?e demo_state))
     = [EvGetLoginPrompts, EvDisplayTextPrompt ''Email'' (Inr ''alice''), EvDisplayNewline,
        EvDisplayNewline, EvDisplayPasswordPrompt ''MFA Code'' (Inl EOF)]"
    by (simp add: exec_defs demo_defs since_def eval_nat_numeral)
  have n: "fst (authenticate ?e demo_state) \<noteq> None"
    using r by simp
  show ?thesis
    using read_failure_ends_authentication [of ?e demo_state "authenticate ?e demo_state"] r evs n
    by simp
qed

text \<open>
  The read of the one-time code ends with \<open>io.EOF\<close>: \<open>authenticate\<close> returns
  \<open>io.EOF\<close>, and \<open>Execute\<close> returns another error in its place.
\<close>

theorem read_failure_is_replaced:
  "fst (authenticate (demo_env\<lparr>UI_DisplayPasswordPrompt := (\<lambda>h name. Inl EOF)\<rparr>) demo_state)
     = Some EOF \<and>
   fst (Execute (demo_env\<lparr>UI_DisplayPasswordPrompt := (\<lambda>h name. Inl EOF)\<rparr>) demo_state)
     = Returns (Some (ErrorString ''Unable to authenticate.''))"
  by (simp add: exec_defs demo_defs eval_nat_numeral)

section \<open>The order of the prompts\<close>

lemma labels_simps [simp]:
  "labels [] = []"
  "labels (ev # evs) = labelOf ev @ labels evs"
  "labels (xs @ ys) = labels xs @ labels ys"
  by (simp_all add: labels_def)

lemma cmd_DisplayTextPrompt [simp]: "cmd (snd (DisplayTextPrompt e name s)) = cmd s"
  by (simp add: DisplayTextPrompt_def Let_def)

lemma cmd_DisplayPasswordPrompt [simp]: "cmd (snd (DisplayPasswordPrompt e name s)) = cmd s"
  by (simp add: DisplayPasswordPrompt_def Let_def)

lemma cmd_Authenticate [simp]: "cmd (snd (Authenticate e c ori g s)) = cmd s"
  by (simp add: Authenticate_def Let_def)

lemma since_DisplayTextPrompt:
  "since s (snd (DisplayTextPrompt e name s)) = [EvDisplayTextPrompt name (fst (DisplayTextPrompt e name s))]"
  by (simp add: DisplayTextPrompt_def Let_def since_def)

lemma since_DisplayPasswordPrompt:
  "since s (snd (DisplayPasswordPrompt e name s))
     = [EvDisplayPasswordPrompt name (fst (DisplayPasswordPrompt e name s))]"
  by (simp add: DisplayPasswordPrompt_def Let_def since_def)

lemma labels_authenticate_username:
  "labels (since s (snd (authenticate_username e prompts s))) = usernameLabels prompts (cmd s) \<and>
   cmd (snd (authenticate_username e prompts s)) = cmd s"
proof (cases "map_of prompts ''username''")
  case None
  then show ?thesis by (simp add: authenticate_username_def usernameLabels_def)
next
  case (Some v)
  show ?thesis
  proof (cases "Type v = AuthPromptTypeText \<and> Username (cmd s) \<noteq> []")
    case True
    then show ?thesis using Some by (simp add: authenticate_username_def usernameLabels_def)
  next
    case False
    let ?p = "DisplayTextPrompt e (DisplayName v) s"
    have a: "adds collectEvent s (snd ?p)"
      by (rule adds_collect_DisplayTextPrompt)
    show ?thesis using Some False since_emit [OF a] since_DisplayTextPrompt [of s e "DisplayName v"]
      by (cases "fst ?p") (simp_all add: authenticate_username_def usernameLabels_def case_prod_beta)
  qed
qed

lemma textLabels_Cons:
  "textLabels ((key, prompt) # rest) =
     (if Type prompt \<noteq> AuthPromptTypePassword \<and> key \<noteq> ''username'' then [LText (DisplayName prompt)] else [])
       @ textLabels rest"
  by (simp add: textLabels_def)

lemma otherSecretKeys_Cons:
  "otherSecretKeys ((key, prompt) # rest) =
     (if Type prompt = AuthPromptTypePassword \<and> key \<noteq> ''passcode'' \<and> key \<noteq> ''password'' then [key] else [])
       @ otherSecretKeys rest"
  by (simp add: otherSecretKeys_def)

lemma labels_authenticate_range:
  "prefix (labels (since s (snd (authenticate_range e prompts credentials keys s)))) (textLabels prompts) \<and>
   cmd (snd (authenticate_range e prompts credentials keys s)) = cmd s \<and>
   (\<forall>c ks. fst (authenticate_range e prompts credentials keys s) = Inr (c, ks) \<longrightarrow>
      labels (since s (snd (authenticate_range e prompts credentials keys s))) = textLabels prompts \<and>
      ks = keys @ otherSecretKeys prompts)"
proof (induction prompts arbitrary: credentials keys s)
  case Nil
  then show ?case by (simp add: textLabels_def otherSecretKeys_def)
next
  case (Cons kp rest)
  obtain key prompt where kp: "kp = (key, prompt)" by (cases kp)
  show ?case
  proof (cases "Type prompt = AuthPromptTypePassword")
    case True
    note pw = True
    show ?thesis
    proof (cases "key = ''passcode'' \<or> key = ''password''")
      case True
      have "authenticate_range e (kp # rest) credentials keys s = authenticate_range e rest credentials keys s"
        using pw True by (simp add: kp)
      moreover have "textLabels (kp # rest) = textLabels rest" "otherSecretKeys (kp # rest) = otherSecretKeys rest"
        using pw True by (auto simp: kp textLabels_Cons otherSecretKeys_Cons)
      ultimately show ?thesis using Cons.IH [where credentials = credentials and keys = keys and s = s] by simp
    next
      case False
      have "authenticate_range e (kp # rest) credentials keys s = authenticate_range e rest credentials (keys @ [key]) s"
        using pw False by (simp add: kp)
      moreover have "textLabels (kp # rest) = textLabels rest"
        "keys @ otherSecretKeys (kp # rest) = (keys @ [key]) @ otherSecretKeys rest"
        using pw False by (auto simp: kp textLabels_Cons otherSecretKeys_Cons)
      ultimately show ?thesis using Cons.IH [where credentials = credentials and keys = "keys @ [key]" and s = s] by simp
    qed
  next
    case False
    note plain = False
    show ?thesis
    proof (cases "key = ''username''")
      case True
      have "authenticate_range e (kp # rest) credentials keys s = authenticate_range e rest credentials keys s"
        using plain True by (simp add: kp)
      moreover have "textLabels (kp # rest) = textLabels rest" "otherSecretKeys (kp # rest) = otherSecretKeys rest"
        using plain True by (auto simp: kp textLabels_Cons otherSecretKeys_Cons)
      ultimately show ?thesis using Cons.IH [where credentials = credentials and keys = keys and s = s] by simp
    next
      case False
      let ?p = "DisplayTextPrompt e (DisplayName prompt) s"
      have tl: "textLabels (kp # rest) = LText (DisplayName prompt) # textLabels rest"
        "otherSecretKeys (kp # rest) = otherSecretKeys rest"
        using plain False by (auto simp: kp textLabels_Cons otherSecretKeys_Cons)
      have a: "adds collectEvent s (snd ?p)"
        by (rule adds_collect_DisplayTextPrompt)
      have sp: "since s (snd ?p) = [EvDisplayTextPrompt (DisplayName prompt) (fst ?p)]"
        by (rule since_DisplayTextPrompt)
      show ?thesis
      proof (cases "fst ?p")
        case (Inl err)
        then have "authenticate_range e (kp # rest) credentials keys s = (Inl err, snd ?p)"
          using plain False by (simp add: kp case_prod_beta)
        then show ?thesis using sp tl by simp
      next
        case (Inr v)
        let ?s1 = "emit EvDisplayNewline (snd ?p)"
        let ?k = "authenticate_range e rest (credentials(key \<mapsto> v)) keys ?s1"
        have eq: "authenticate_range e (kp # rest) credentials keys s = ?k"
          using Inr plain False by (simp add: kp case_prod_beta)
        have a1: "adds collectEvent s ?s1"
          using a by (simp add: adds_emit)
        have a2: "adds collectEvent ?s1 (snd ?k)"
          by (rule adds_authenticate_range) simp
        have s1: "since s ?s1 = [EvDisplayTextPrompt (DisplayName prompt) (fst ?p), EvDisplayNewline]"
          using since_emit [OF a] sp by simp
        have sk: "labels (since s (snd ?k)) = LText (DisplayName prompt) # labels (since ?s1 (snd ?k))"
          unfolding since_trans [OF a1 a2] s1 by simp
        have ih: "prefix (labels (since ?s1 (snd ?k))) (textLabels rest) \<and>
           cmd (snd ?k) = cmd ?s1 \<and>
           (\<forall>c ks. fst ?k = Inr (c, ks) \<longrightarrow>
              labels (since ?s1 (snd ?k)) = textLabels rest \<and> ks = keys @ otherSecretKeys rest)"
          by (rule Cons.IH)
        have "prefix (labels (since s (snd ?k))) (textLabels (kp # rest)) \<and>
           cmd (snd ?k) = cmd s \<and>
           (\<forall>c ks. fst ?k = Inr (c, ks) \<longrightarrow>
              labels (since s (snd ?k)) = textLabels (kp # rest) \<and> ks = keys @ otherSecretKeys (kp # rest))"
          using ih unfolding sk tl by simp
        then show ?thesis unfolding eq .
      qed
    qed
  qed
qed











section \<open>A supplied secret is used once\<close>

lemma secretSteps_simps [simp]:
  "secretSteps [] = []"
  "secretSteps (ev # evs) = secretStep ev @ secretSteps evs"
  "secretSteps (xs @ ys) = secretSteps xs @ secretSteps ys"
  by (simp_all add: secretSteps_def)

lemma splitAttempts_prompts:
  "splitAttempts acc (map Inl pws @ xs) = splitAttempts (acc @ pws) xs"
  by (induction pws arbitrary: acc) simp_all

lemma splitAttempts_only_prompts [simp]: "splitAttempts acc (map Inl pws) = []"
  using splitAttempts_prompts [of acc pws "[]"] by simp

lemma attempts_iteration:
  "secretSteps evs = map Inl pws @ Inr c # xs \<Longrightarrow> attempts evs = (pws, c) # splitAttempts [] xs"
  by (simp add: attempts_def splitAttempts_prompts)

lemma attempts_no_submission:
  "secretSteps evs = map Inl pws \<Longrightarrow> attempts evs = []"
  by (simp add: attempts_def)

text \<open>The passcode block.\<close>

lemma secrets_authenticateSSO_passcode_supplied:
  assumes "SSOPasscode (cmd s) \<noteq> []"
  shows "authenticateSSO_passcode e prompts credentials s =
           (Inr (credentials(''passcode'' \<mapsto> SSOPasscode (cmd s))), s\<lparr>cmd := (cmd s)\<lparr>SSOPasscode := []\<rparr>\<rparr>)"
  using assms by (simp add: authenticateSSO_passcode_def)

lemma secrets_authenticateSSO_passcode_prompted:
  assumes "SSOPasscode (cmd s) = []"
  shows "secretSteps (since s (snd (authenticateSSO_passcode e prompts credentials s)))
           = [Inl (promptDisplayName prompts ''passcode'',
                   UI_DisplayPasswordPrompt e (log s) (promptDisplayName prompts ''passcode''))] \<and>
         cmd (snd (authenticateSSO_passcode e prompts credentials s)) = cmd s \<and>
         (\<forall>c. fst (authenticateSSO_passcode e prompts credentials s) = Inr c \<longrightarrow>
            (\<exists>v. UI_DisplayPasswordPrompt e (log s) (promptDisplayName prompts ''passcode'') = Inr v \<and>
                 c ''passcode'' = Some v))"
  using assms
  by (cases "UI_DisplayPasswordPrompt e (log s) (promptDisplayName prompts ''passcode'')")
    (auto simp: authenticateSSO_passcode_def DisplayPasswordPrompt_def Let_def since_def emit_def)

text \<open>One turn of either loop after the credentials are collected.\<close>

lemma promptedFirst_Cons:
  "promptedFirst name key ((name, Inr v) # ps, c) \<longleftrightarrow> c key = Some v"
  by simp

lemma authenticateSSO_loop_prompted:
  assumes "SSOPasscode (cmd s) = []"
  shows "list_all (promptedFirst (promptDisplayName prompts ''passcode'') ''passcode'')
           (attempts (since s (snd (authenticateSSO_loop n e prompts err credentials s)))) \<and>
         SSOPasscode (cmd (snd (authenticateSSO_loop n e prompts err credentials s))) = []"
  using assms
proof (induction n arbitrary: err credentials s)
  case 0
  then show ?case by (simp add: attempts_def)
next
  case (Suc n)
  let ?name = "promptDisplayName prompts ''passcode''"
  let ?reply = "UI_DisplayPasswordPrompt e (log s) ?name"
  let ?p = "authenticateSSO_passcode e prompts credentials s"
  have ap: "adds collectEvent s (snd ?p)"
    by (rule adds_authenticateSSO_passcode) simp
  have sp: "secretSteps (since s (snd ?p)) = [Inl (?name, ?reply)]"
    "cmd (snd ?p) = cmd s"
    "\<forall>c. fst ?p = Inr c \<longrightarrow> (\<exists>v. ?reply = Inr v \<and> c ''passcode'' = Some v)"
    using secrets_authenticateSSO_passcode_prompted [OF Suc.prems, of e prompts credentials] by simp_all
  show ?case
  proof (cases "fst ?p")
    case (Inl err1)
    then have "snd (authenticateSSO_loop (Suc n) e prompts err credentials s) = snd ?p"
      by (simp add: case_prod_beta)
    then show ?thesis using sp(1,2) Suc.prems attempts_no_submission [of "since s (snd ?p)" "[(?name, ?reply)]"]
      by simp
  next
    case (Inr pc)
    then obtain v where v: "?reply = Inr v" "pc ''passcode'' = Some v"
      using sp(3) by blast
    let ?a = "Authenticate e pc [] GrantTypePassword (emit (EvDisplayText ''Authenticating...'' []) (snd ?p))"
    have la: "log (snd ?a) = log (snd ?p) @ [EvDisplayText ''Authenticating...'' [],
               EvAuthenticate pc [] GrantTypePassword (fst ?a)]"
      by (simp add: Authenticate_log)
    show ?thesis
    proof (cases "fst ?a")
      case None
      let ?f = "emit EvDisplayNewline (emit EvDisplayOK (snd ?a))"
      have lf: "log ?f = log (snd ?p) @ [EvDisplayText ''Authenticating...'' [],
               EvAuthenticate pc [] GrantTypePassword None, EvDisplayOK, EvDisplayNewline]"
        using la None by simp
      have "secretSteps (since s ?f) = map Inl [(?name, Inr v)] @ Inr pc # []"
        using sp(1) v(1) by (simp add: since_step [OF ap lf])
      then have "attempts (since s ?f) = [([(?name, Inr v)], pc)]"
        using attempts_iteration by fastforce
      moreover have "authenticateSSO_loop (Suc n) e prompts err credentials s = (None, ?f)"
        using Inr None by (simp add: case_prod_beta)
      ultimately show ?thesis using v(2) sp(2) Suc.prems by simp
    next
      case (Some err1)
      let ?s3 = "emit EvDisplayNewline (emit (EvDisplayWarningError err1) (snd ?a))"
      have l3: "log ?s3 = log (snd ?p) @ [EvDisplayText ''Authenticating...'' [],
               EvAuthenticate pc [] GrantTypePassword (Some err1), EvDisplayWarningError err1,
               EvDisplayNewline]"
        using la Some by simp
      have "adds authEvent s (snd ?p)"
        using ap by (rule adds_mono) (rule collect_auth)
      then have "adds authEvent s (snd ?a)"
        by (simp add: adds_Authenticate adds_emit)
      then have a3: "adds authEvent s ?s3"
        by (simp add: adds_emit)
      let ?l = "authenticateSSO_loop n e prompts (Some err1) pc ?s3"
      have eq: "authenticateSSO_loop (Suc n) e prompts err credentials s = ?l"
        using Inr Some by (simp add: case_prod_beta)
      have al: "adds authEvent ?s3 (snd ?l)"
        by (rule adds_authenticateSSO_loop) simp
      have c3: "SSOPasscode (cmd ?s3) = []"
        using sp(2) Suc.prems by simp
      have ih: "list_all (promptedFirst ?name ''passcode'') (attempts (since ?s3 (snd ?l))) \<and>
                SSOPasscode (cmd (snd ?l)) = []"
        using c3 by (rule Suc.IH)
      have "secretSteps (since s (snd ?l)) = map Inl [(?name, Inr v)] @ Inr pc # secretSteps (since ?s3 (snd ?l))"
        unfolding since_trans [OF a3 al] using sp(1) v(1) by (simp add: since_step [OF ap l3])
      then have "attempts (since s (snd ?l)) = ([(?name, Inr v)], pc) # attempts (since ?s3 (snd ?l))"
        using attempts_iteration [of "since s (snd ?l)"] by (simp add: attempts_def)
      then have "list_all (promptedFirst ?name ''passcode'') (attempts (since s (snd ?l))) \<and>
                SSOPasscode (cmd (snd ?l)) = []"
        using ih v(2) by simp
      then show ?thesis unfolding eq .
    qed
  qed
qed

lemma attempts_skip: "secretSteps xs = [] \<Longrightarrow> attempts (xs @ ys) = attempts ys"
  by (simp add: attempts_def)

lemma authenticateSSO_loop_supplied:
  assumes "SSOPasscode (cmd s) \<noteq> []"
  shows "list_all (promptedFirst (promptDisplayName prompts ''passcode'') ''passcode'')
           (tl (attempts (since s (snd (authenticateSSO_loop n e prompts err credentials s))))) \<and>
         (attempts (since s (snd (authenticateSSO_loop n e prompts err credentials s))) \<noteq> [] \<longrightarrow>
            hd (attempts (since s (snd (authenticateSSO_loop n e prompts err credentials s))))
              = ([], credentials(''passcode'' \<mapsto> SSOPasscode (cmd s))) \<and>
            SSOPasscode (cmd (snd (authenticateSSO_loop n e prompts err credentials s))) = [])"
proof (cases n)
  case 0
  then show ?thesis by (simp add: attempts_def)
next
  case (Suc m)
  let ?name = "promptDisplayName prompts ''passcode''"
  let ?pc = "credentials(''passcode'' \<mapsto> SSOPasscode (cmd s))"
  let ?s1 = "s\<lparr>cmd := (cmd s)\<lparr>SSOPasscode := []\<rparr>\<rparr>"
  have p: "authenticateSSO_passcode e prompts credentials s = (Inr ?pc, ?s1)"
    using assms by (rule secrets_authenticateSSO_passcode_supplied)
  let ?a = "Authenticate e ?pc [] GrantTypePassword (emit (EvDisplayText ''Authenticating...'' []) ?s1)"
  have la: "log (snd ?a) = log s @ [EvDisplayText ''Authenticating...'' [],
               EvAuthenticate ?pc [] GrantTypePassword (fst ?a)]"
    by (simp add: Authenticate_log)
  show ?thesis
  proof (cases "fst ?a")
    case None
    let ?f = "emit EvDisplayNewline (emit EvDisplayOK (snd ?a))"
    have lf: "log ?f = log s @ [EvDisplayText ''Authenticating...'' [],
               EvAuthenticate ?pc [] GrantTypePassword None, EvDisplayOK, EvDisplayNewline]"
      using la None by simp
    have "attempts (since s ?f) = [([], ?pc)]"
      by (simp add: since_log [OF lf] attempts_def)
    moreover have "authenticateSSO_loop n e prompts err credentials s = (None, ?f)"
      using Suc p None by (simp add: case_prod_beta)
    ultimately show ?thesis by simp
  next
    case (Some err1)
    let ?s3 = "emit EvDisplayNewline (emit (EvDisplayWarningError err1) (snd ?a))"
    have l3: "log ?s3 = log s @ [EvDisplayText ''Authenticating...'' [],
               EvAuthenticate ?pc [] GrantTypePassword (Some err1), EvDisplayWarningError err1,
               EvDisplayNewline]"
      using la Some by simp
    have a3: "adds authEvent s ?s3"
      using l3 by (simp add: adds_iff)
    let ?l = "authenticateSSO_loop m e prompts (Some err1) ?pc ?s3"
    have eq: "authenticateSSO_loop n e prompts err credentials s = ?l"
      using Suc p Some by (simp add: case_prod_beta)
    have al: "adds authEvent ?s3 (snd ?l)"
      by (rule adds_authenticateSSO_loop) simp
    have c3: "SSOPasscode (cmd ?s3) = []"
      by simp
    have ih: "list_all (promptedFirst ?name ''passcode'') (attempts (since ?s3 (snd ?l))) \<and>
              SSOPasscode (cmd (snd ?l)) = []"
      using c3 by (rule authenticateSSO_loop_prompted)
    have "secretSteps (since s (snd ?l)) = map Inl [] @ Inr ?pc # secretSteps (since ?s3 (snd ?l))"
      unfolding since_trans [OF a3 al] by (simp add: since_log [OF l3])
    then have "attempts (since s (snd ?l)) = ([], ?pc) # attempts (since ?s3 (snd ?l))"
      using attempts_iteration [of "since s (snd ?l)"] by (simp add: attempts_def)
    then have "list_all (promptedFirst ?name ''passcode'') (tl (attempts (since s (snd ?l)))) \<and>
         (attempts (since s (snd ?l)) \<noteq> [] \<longrightarrow>
            hd (attempts (since s (snd ?l))) = ([], ?pc) \<and> SSOPasscode (cmd (snd ?l)) = [])"
      using ih by simp
    then show ?thesis unfolding eq .
  qed
qed

lemma since_first: "adds P (emit ev s) t \<Longrightarrow> since s t = ev # since (emit ev s) t"
  by (auto simp: adds_iff since_def)

lemma authenticateSSO_attempts_since:
  "attempts (since s (snd (authenticateSSO e s)))
     = attempts (since (emit EvGetLoginPrompts s)
         (snd (authenticateSSO_loop maxLoginTries e (Actor_GetLoginPrompts e) None Map.empty
                (emit EvGetLoginPrompts s))))"
proof -
  let ?s0 = "emit EvGetLoginPrompts s"
  let ?l = "authenticateSSO_loop maxLoginTries e (Actor_GetLoginPrompts e) None Map.empty ?s0"
  have "adds authEvent ?s0 (snd ?l)"
    by (rule adds_authenticateSSO_loop) simp
  then have "since s (snd ?l) = [EvGetLoginPrompts] @ since ?s0 (snd ?l)"
    by (simp add: since_first)
  moreover have "attempts ([EvGetLoginPrompts] @ since ?s0 (snd ?l)) = attempts (since ?s0 (snd ?l))"
    by (rule attempts_skip) simp
  ultimately have "attempts (since s (snd ?l)) = attempts (since ?s0 (snd ?l))"
    by (simp only:)
  then show ?thesis by (simp add: authenticateSSO_def)
qed

lemma authenticateSSO_secret_once:
  "list_all (promptedFirst (promptDisplayName (Actor_GetLoginPrompts e) ''passcode'') ''passcode'')
     (if SSOPasscode (cmd s) \<noteq> [] then tl (attempts (since s (snd (authenticateSSO e s))))
      else attempts (since s (snd (authenticateSSO e s)))) \<and>
   (SSOPasscode (cmd s) \<noteq> [] \<and> attempts (since s (snd (authenticateSSO e s))) \<noteq> [] \<longrightarrow>
      hd (attempts (since s (snd (authenticateSSO e s)))) = ([], [''passcode'' \<mapsto> SSOPasscode (cmd s)]) \<and>
      SSOPasscode (cmd (snd (authenticateSSO e s))) = [])"
proof (cases "SSOPasscode (cmd s) \<noteq> []")
  case True
  then have "SSOPasscode (cmd (emit EvGetLoginPrompts s)) \<noteq> []"
    by simp
  from authenticateSSO_loop_supplied [OF this, of "Actor_GetLoginPrompts e" maxLoginTries e None Map.empty]
  show ?thesis using True
    by (simp add: authenticateSSO_attempts_since) (simp add: authenticateSSO_def)
next
  case False
  then have "SSOPasscode (cmd (emit EvGetLoginPrompts s)) = []"
    by simp
  from authenticateSSO_loop_prompted [OF this, of "Actor_GetLoginPrompts e" maxLoginTries e None Map.empty]
  show ?thesis using False
    by (simp add: authenticateSSO_attempts_since)
qed

text \<open>The password block and the other secrets.\<close>

lemma secrets_passwordPrompts_keys:
  "\<exists>pws. secretSteps (since s (snd (passwordPrompts_keys e prompts credentials keys s))) = map Inl pws \<and>
     cmd (snd (passwordPrompts_keys e prompts credentials keys s)) = cmd s \<and>
     (\<forall>pc. fst (passwordPrompts_keys e prompts credentials keys s) = Inr pc \<longrightarrow>
        (\<forall>k. k \<notin> set keys \<longrightarrow> pc k = credentials k))"
proof (induction keys arbitrary: credentials s)
  case Nil
  show ?case by simp
next
  case (Cons key keys)
  let ?name = "promptDisplayName prompts key"
  let ?s1 = "emit EvDisplayNewline s"
  let ?p = "DisplayPasswordPrompt e ?name ?s1"
  have a1: "adds collectEvent s ?s1"
    by (simp add: adds_emit)
  have a2: "adds collectEvent ?s1 (snd ?p)"
    by (rule adds_collect_DisplayPasswordPrompt)
  have sp: "since s (snd ?p) = [EvDisplayNewline, EvDisplayPasswordPrompt ?name (fst ?p)]"
    unfolding since_trans [OF a1 a2] since_DisplayPasswordPrompt by (simp add: since_def)
  show ?case
  proof (cases "fst ?p")
    case (Inl err)
    then have eq: "passwordPrompts_keys e prompts credentials (key # keys) s = (Inl err, snd ?p)"
      by (simp add: case_prod_beta)
    have "secretSteps (since s (snd ?p)) = map Inl [(?name, fst ?p)]"
      using sp by simp
    then show ?thesis unfolding eq by (intro exI [of _ "[(?name, fst ?p)]"]) simp
  next
    case (Inr v)
    let ?k = "passwordPrompts_keys e prompts (credentials(key \<mapsto> v)) keys (snd ?p)"
    have eq: "passwordPrompts_keys e prompts credentials (key # keys) s = ?k"
      using Inr by (simp add: case_prod_beta)
    have a3: "adds collectEvent (snd ?p) (snd ?k)"
      by (rule adds_passwordPrompts_keys) simp
    obtain pws where ih: "secretSteps (since (snd ?p) (snd ?k)) = map Inl pws"
      "cmd (snd ?k) = cmd (snd ?p)"
      "\<forall>pc. fst ?k = Inr pc \<longrightarrow> (\<forall>k. k \<notin> set keys \<longrightarrow> pc k = (credentials(key \<mapsto> v)) k)"
      using Cons.IH [where credentials = "credentials(key \<mapsto> v)" and s = "snd ?p"] by blast
    have "secretSteps (since s (snd ?k)) = map Inl ((?name, fst ?p) # pws)"
      unfolding since_trans [OF adds_trans [OF a1 a2] a3] sp using ih(1) by simp
    moreover have "cmd (snd ?k) = cmd s"
      using ih(2) by simp
    moreover have "\<forall>pc. fst ?k = Inr pc \<longrightarrow> (\<forall>k. k \<notin> set (key # keys) \<longrightarrow> pc k = credentials k)"
      using ih(3) by auto
    ultimately show ?thesis unfolding eq by blast
  qed
qed

lemma secrets_passwordPrompts_supplied:
  assumes "map_of prompts ''password'' = Some p" and "Password (cmd s) \<noteq> []"
    and "''password'' \<notin> set keys"
  shows "\<exists>pws. secretSteps (since s (snd (passwordPrompts e prompts credentials keys s))) = map Inl pws \<and>
     Password (cmd (snd (passwordPrompts e prompts credentials keys s))) = [] \<and>
     (\<forall>pc. fst (passwordPrompts e prompts credentials keys s) = Inr pc \<longrightarrow>
        pc ''password'' = Some (Password (cmd s)))"
proof -
  let ?c1 = "credentials(''password'' \<mapsto> Password (cmd s))"
  let ?s1 = "s\<lparr>cmd := (cmd s)\<lparr>Password := []\<rparr>\<rparr>"
  let ?k = "passwordPrompts_keys e prompts ?c1 keys ?s1"
  have eq: "passwordPrompts e prompts credentials keys s = ?k"
    using assms(1,2) by (simp add: passwordPrompts_def passwordPrompts_password_def)
  obtain pws where k: "secretSteps (since ?s1 (snd ?k)) = map Inl pws"
    "cmd (snd ?k) = cmd ?s1"
    "\<forall>pc. fst ?k = Inr pc \<longrightarrow> (\<forall>k. k \<notin> set keys \<longrightarrow> pc k = ?c1 k)"
    using secrets_passwordPrompts_keys [of ?s1 e prompts ?c1 keys] by blast
  have "since s (snd ?k) = since ?s1 (snd ?k)"
    by (simp add: since_def)
  then have "secretSteps (since s (snd ?k)) = map Inl pws"
    using k(1) by simp
  moreover have "Password (cmd (snd ?k)) = []"
    using k(2) by simp
  moreover have "\<forall>pc. fst ?k = Inr pc \<longrightarrow> pc ''password'' = Some (Password (cmd s))"
    using k(3) assms(3) by auto
  ultimately show ?thesis unfolding eq by blast
qed

lemma secrets_passwordPrompts_prompted:
  assumes "map_of prompts ''password'' = Some p" and "Password (cmd s) = []"
    and "''password'' \<notin> set keys"
  shows "\<exists>pws. secretSteps (since s (snd (passwordPrompts e prompts credentials keys s))) = map Inl pws \<and>
     Password (cmd (snd (passwordPrompts e prompts credentials keys s))) = [] \<and>
     (\<forall>pc. fst (passwordPrompts e prompts credentials keys s) = Inr pc \<longrightarrow>
        (\<exists>v rest. pws = (DisplayName p, Inr v) # rest \<and> pc ''password'' = Some v))"
proof -
  let ?p = "DisplayPasswordPrompt e (DisplayName p) s"
  have a: "adds collectEvent s (snd ?p)"
    by (rule adds_collect_DisplayPasswordPrompt)
  have sp: "since s (snd ?p) = [EvDisplayPasswordPrompt (DisplayName p) (fst ?p)]"
    by (rule since_DisplayPasswordPrompt)
  show ?thesis
  proof (cases "fst ?p")
    case (Inl err)
    then have eq: "passwordPrompts e prompts credentials keys s = (Inl err, snd ?p)"
      using assms(1,2) by (simp add: passwordPrompts_def passwordPrompts_password_def case_prod_beta)
    have "secretSteps (since s (snd ?p)) = map Inl [(DisplayName p, fst ?p)]"
      using sp by simp
    then show ?thesis unfolding eq using assms(2)
      by (intro exI [of _ "[(DisplayName p, fst ?p)]"]) simp
  next
    case (Inr v)
    let ?c1 = "credentials(''password'' \<mapsto> v)"
    let ?k = "passwordPrompts_keys e prompts ?c1 keys (snd ?p)"
    have eq: "passwordPrompts e prompts credentials keys s = ?k"
      using assms(1,2) Inr by (simp add: passwordPrompts_def passwordPrompts_password_def case_prod_beta)
    have a2: "adds collectEvent (snd ?p) (snd ?k)"
      by (rule adds_passwordPrompts_keys) simp
    obtain pws where k: "secretSteps (since (snd ?p) (snd ?k)) = map Inl pws"
      "cmd (snd ?k) = cmd (snd ?p)"
      "\<forall>pc. fst ?k = Inr pc \<longrightarrow> (\<forall>k. k \<notin> set keys \<longrightarrow> pc k = ?c1 k)"
      using secrets_passwordPrompts_keys [of "snd ?p" e prompts ?c1 keys] by blast
    have "secretSteps (since s (snd ?k)) = map Inl ((DisplayName p, Inr v) # pws)"
      unfolding since_trans [OF a a2] sp using k(1) Inr by simp
    moreover have "Password (cmd (snd ?k)) = []"
      using k(2) assms(2) by simp
    moreover have "\<forall>pc. fst ?k = Inr pc \<longrightarrow>
        (\<exists>v' rest. (DisplayName p, Inr v) # pws = (DisplayName p, Inr v') # rest \<and> pc ''password'' = Some v')"
      using k(3) assms(3) by auto
    ultimately show ?thesis unfolding eq by blast
  qed
qed

lemma authenticate_loop_prompted:
  assumes "map_of prompts ''password'' = Some p" and "''password'' \<notin> set keys"
    and "Password (cmd s) = []"
  shows "list_all (promptedFirst (DisplayName p) ''password'')
           (attempts (since s (snd (authenticate_loop n e prompts keys err credentials s)))) \<and>
         Password (cmd (snd (authenticate_loop n e prompts keys err credentials s))) = []"
  using assms(3)
proof (induction n arbitrary: err credentials s)
  case 0
  then show ?case by (simp add: attempts_def)
next
  case (Suc n)
  let ?p = "passwordPrompts e prompts credentials keys s"
  have ap: "adds collectEvent s (snd ?p)"
    by (rule adds_passwordPrompts) simp
  from secrets_passwordPrompts_prompted [OF assms(1) Suc.prems assms(2), of e credentials]
  obtain pws where sp0: "secretSteps (since s (snd ?p)) = map Inl pws \<and>
    Password (cmd (snd ?p)) = [] \<and>
    (\<forall>pc. fst ?p = Inr pc \<longrightarrow> (\<exists>v rest. pws = (DisplayName p, Inr v) # rest \<and> pc ''password'' = Some v))" ..
  have sp: "secretSteps (since s (snd ?p)) = map Inl pws"
    "Password (cmd (snd ?p)) = []"
    "\<forall>pc. fst ?p = Inr pc \<longrightarrow> (\<exists>v rest. pws = (DisplayName p, Inr v) # rest \<and> pc ''password'' = Some v)"
    using sp0 by (rule conjunct1, rule conjunct2 [THEN conjunct1], rule conjunct2 [THEN conjunct2])
  show ?case
  proof (cases "fst ?p")
    case (Inl err1)
    then have "snd (authenticate_loop (Suc n) e prompts keys err credentials s) = snd ?p"
      by (simp add: case_prod_beta)
    then show ?thesis using sp(1,2) attempts_no_submission [of "since s (snd ?p)" pws]
      by simp
  next
    case (Inr pc)
    then obtain v rest where v: "pws = (DisplayName p, Inr v) # rest" "pc ''password'' = Some v"
      using sp(3) by blast
    have pf: "promptedFirst (DisplayName p) ''password'' (pws, pc)"
      using v by simp
    let ?a = "Authenticate e pc [] GrantTypePassword (emit (EvDisplayText ''Authenticating...'' []) (snd ?p))"
    have la: "log (snd ?a) = log (snd ?p) @ [EvDisplayText ''Authenticating...'' [],
               EvAuthenticate pc [] GrantTypePassword (fst ?a)]"
      by (simp add: Authenticate_log)
    show ?thesis
    proof (cases "fst ?a")
      case None
      let ?f = "emit EvDisplayNewline (emit EvDisplayOK (snd ?a))"
      have lf: "log ?f = log (snd ?p) @ [EvDisplayText ''Authenticating...'' [],
               EvAuthenticate pc [] GrantTypePassword None, EvDisplayOK, EvDisplayNewline]"
        using la None by simp
      have "secretSteps (since s ?f) = map Inl pws @ Inr pc # []"
        using sp(1) by (simp add: since_step [OF ap lf])
      then have "attempts (since s ?f) = [(pws, pc)]"
        using attempts_iteration by fastforce
      moreover have "authenticate_loop (Suc n) e prompts keys err credentials s = (None, ?f)"
        using Inr None by (simp add: case_prod_beta)
      ultimately show ?thesis using pf sp(2) by simp
    next
      case (Some err1)
      let ?s3 = "emit EvDisplayNewline (emit (EvDisplayWarningError err1) (snd ?a))"
      have l3: "log ?s3 = log (snd ?p) @ [EvDisplayText ''Authenticating...'' [],
               EvAuthenticate pc [] GrantTypePassword (Some err1), EvDisplayWarningError err1,
               EvDisplayNewline]"
        using la Some by simp
      have s3: "secretSteps (since s ?s3) = map Inl pws @ [Inr pc]"
        using sp(1) by (simp add: since_step [OF ap l3])
      have c3: "Password (cmd ?s3) = []"
        using sp(2) by simp
      have "adds authEvent s (snd ?p)"
        using ap by (rule adds_mono) (rule collect_auth)
      then have "adds authEvent s (snd ?a)"
        by (simp add: adds_Authenticate adds_emit)
      then have a3: "adds authEvent s ?s3"
        by (simp add: adds_emit)
      show ?thesis
      proof (cases "isAccountLocked (Some err1)")
        case True
        then obtain m where "err1 = AccountLockedError m"
          by (cases err1) simp_all
        then have "authenticate_loop (Suc n) e prompts keys err credentials s = (Some err1, ?s3)"
          using Inr Some by (simp add: case_prod_beta Let_def)
        moreover have "attempts (since s ?s3) = [(pws, pc)]"
          using s3 attempts_iteration [of "since s ?s3" pws pc "[]"] by simp
        ultimately show ?thesis using pf c3 by simp
      next
        case False
        let ?l = "authenticate_loop n e prompts keys (Some err1) pc ?s3"
        have eq: "authenticate_loop (Suc n) e prompts keys err credentials s = ?l"
          using Inr Some False by (cases err1) (simp_all add: case_prod_beta Let_def)
        have al: "adds authEvent ?s3 (snd ?l)"
          by (rule adds_authenticate_loop) simp
        have ih: "list_all (promptedFirst (DisplayName p) ''password'') (attempts (since ?s3 (snd ?l))) \<and>
                  Password (cmd (snd ?l)) = []"
          using c3 by (rule Suc.IH)
        have "secretSteps (since s (snd ?l)) = map Inl pws @ Inr pc # secretSteps (since ?s3 (snd ?l))"
          unfolding since_trans [OF a3 al] using s3 by simp
        then have "attempts (since s (snd ?l)) = (pws, pc) # attempts (since ?s3 (snd ?l))"
          using attempts_iteration [of "since s (snd ?l)"] by (simp add: attempts_def)
        then have "list_all (promptedFirst (DisplayName p) ''password'') (attempts (since s (snd ?l))) \<and>
                  Password (cmd (snd ?l)) = []"
          using ih pf by simp
        then show ?thesis unfolding eq .
      qed
    qed
  qed
qed

lemma authenticate_loop_supplied:
  assumes "map_of prompts ''password'' = Some p" and "''password'' \<notin> set keys"
    and "Password (cmd s) \<noteq> []"
  shows "list_all (promptedFirst (DisplayName p) ''password'')
           (tl (attempts (since s (snd (authenticate_loop n e prompts keys err credentials s))))) \<and>
         (attempts (since s (snd (authenticate_loop n e prompts keys err credentials s))) \<noteq> [] \<longrightarrow>
            submits ''password'' (Password (cmd s))
              (hd (attempts (since s (snd (authenticate_loop n e prompts keys err credentials s))))) \<and>
            Password (cmd (snd (authenticate_loop n e prompts keys err credentials s))) = [])"
proof (cases n)
  case 0
  then show ?thesis by (simp add: attempts_def)
next
  case (Suc m)
  let ?p = "passwordPrompts e prompts credentials keys s"
  have ap: "adds collectEvent s (snd ?p)"
    by (rule adds_passwordPrompts) simp
  from secrets_passwordPrompts_supplied [OF assms(1) assms(3) assms(2), of e credentials]
  obtain pws where sp0: "secretSteps (since s (snd ?p)) = map Inl pws \<and>
    Password (cmd (snd ?p)) = [] \<and>
    (\<forall>pc. fst ?p = Inr pc \<longrightarrow> pc ''password'' = Some (Password (cmd s)))" ..
  have sp: "secretSteps (since s (snd ?p)) = map Inl pws"
    "Password (cmd (snd ?p)) = []"
    "\<forall>pc. fst ?p = Inr pc \<longrightarrow> pc ''password'' = Some (Password (cmd s))"
    using sp0 by (rule conjunct1, rule conjunct2 [THEN conjunct1], rule conjunct2 [THEN conjunct2])
  show ?thesis
  proof (cases "fst ?p")
    case (Inl err1)
    then have "snd (authenticate_loop n e prompts keys err credentials s) = snd ?p"
      using Suc by (simp add: case_prod_beta)
    then show ?thesis using sp(1) attempts_no_submission [of "since s (snd ?p)" pws]
      by simp
  next
    case (Inr pc)
    then have sub: "submits ''password'' (Password (cmd s)) (pws, pc)"
      using sp(3) by (simp add: submits_def)
    let ?a = "Authenticate e pc [] GrantTypePassword (emit (EvDisplayText ''Authenticating...'' []) (snd ?p))"
    have la: "log (snd ?a) = log (snd ?p) @ [EvDisplayText ''Authenticating...'' [],
               EvAuthenticate pc [] GrantTypePassword (fst ?a)]"
      by (simp add: Authenticate_log)
    show ?thesis
    proof (cases "fst ?a")
      case None
      let ?f = "emit EvDisplayNewline (emit EvDisplayOK (snd ?a))"
      have lf: "log ?f = log (snd ?p) @ [EvDisplayText ''Authenticating...'' [],
               EvAuthenticate pc [] GrantTypePassword None, EvDisplayOK, EvDisplayNewline]"
        using la None by simp
      have "secretSteps (since s ?f) = map Inl pws @ Inr pc # []"
        using sp(1) by (simp add: since_step [OF ap lf])
      then have "attempts (since s ?f) = [(pws, pc)]"
        using attempts_iteration by fastforce
      moreover have "authenticate_loop n e prompts keys err credentials s = (None, ?f)"
        using Suc Inr None by (simp add: case_prod_beta)
      ultimately show ?thesis using sub sp(2) by simp
    next
      case (Some err1)
      let ?s3 = "emit EvDisplayNewline (emit (EvDisplayWarningError err1) (snd ?a))"
      have l3: "log ?s3 = log (snd ?p) @ [EvDisplayText ''Authenticating...'' [],
               EvAuthenticate pc [] GrantTypePassword (Some err1), EvDisplayWarningError err1,
               EvDisplayNewline]"
        using la Some by simp
      have s3: "secretSteps (since s ?s3) = map Inl pws @ [Inr pc]"
        using sp(1) by (simp add: since_step [OF ap l3])
      have c3: "Password (cmd ?s3) = []"
        using sp(2) by simp
      have "adds authEvent s (snd ?p)"
        using ap by (rule adds_mono) (rule collect_auth)
      then have "adds authEvent s (snd ?a)"
        by (simp add: adds_Authenticate adds_emit)
      then have a3: "adds authEvent s ?s3"
        by (simp add: adds_emit)
      show ?thesis
      proof (cases "isAccountLocked (Some err1)")
        case True
        then obtain m' where "err1 = AccountLockedError m'"
          by (cases err1) simp_all
        then have "authenticate_loop n e prompts keys err credentials s = (Some err1, ?s3)"
          using Suc Inr Some by (simp add: case_prod_beta Let_def)
        moreover have "attempts (since s ?s3) = [(pws, pc)]"
          using s3 attempts_iteration [of "since s ?s3" pws pc "[]"] by simp
        ultimately show ?thesis using sub c3 by simp
      next
        case False
        let ?l = "authenticate_loop m e prompts keys (Some err1) pc ?s3"
        have eq: "authenticate_loop n e prompts keys err credentials s = ?l"
          using Suc Inr Some False by (cases err1) (simp_all add: case_prod_beta Let_def)
        have al: "adds authEvent ?s3 (snd ?l)"
          by (rule adds_authenticate_loop) simp
        have ih: "list_all (promptedFirst (DisplayName p) ''password'') (attempts (since ?s3 (snd ?l))) \<and>
                  Password (cmd (snd ?l)) = []"
          using assms(1,2) c3 by (rule authenticate_loop_prompted)
        have "secretSteps (since s (snd ?l)) = map Inl pws @ Inr pc # secretSteps (since ?s3 (snd ?l))"
          unfolding since_trans [OF a3 al] using s3 by simp
        then have "attempts (since s (snd ?l)) = (pws, pc) # attempts (since ?s3 (snd ?l))"
          using attempts_iteration [of "since s (snd ?l)"] by (simp add: attempts_def)
        then have "list_all (promptedFirst (DisplayName p) ''password'') (tl (attempts (since s (snd ?l)))) \<and>
           (attempts (since s (snd ?l)) \<noteq> [] \<longrightarrow>
              submits ''password'' (Password (cmd s)) (hd (attempts (since s (snd ?l)))) \<and>
              Password (cmd (snd ?l)) = [])"
          using ih sub by simp
        then show ?thesis unfolding eq .
      qed
    qed
  qed
qed

lemma secrets_authenticate_username:
  "secretSteps (since s (snd (authenticate_username e prompts s))) = []"
proof (cases "map_of prompts ''username''")
  case None
  then show ?thesis by (simp add: authenticate_username_def)
next
  case (Some v)
  show ?thesis
  proof (cases "Type v = AuthPromptTypeText \<and> Username (cmd s) \<noteq> []")
    case True
    then show ?thesis using Some by (simp add: authenticate_username_def)
  next
    case False
    let ?p = "DisplayTextPrompt e (DisplayName v) s"
    have a: "adds collectEvent s (snd ?p)"
      by (rule adds_collect_DisplayTextPrompt)
    show ?thesis using Some False since_emit [OF a] since_DisplayTextPrompt [of s e "DisplayName v"]
      by (cases "fst ?p") (simp_all add: authenticate_username_def case_prod_beta)
  qed
qed

lemma secrets_authenticate_range:
  "secretSteps (since s (snd (authenticate_range e prompts credentials keys s))) = []"
proof (induction prompts arbitrary: credentials keys s)
  case Nil
  then show ?case by simp
next
  case (Cons kp rest)
  obtain key prompt where kp: "kp = (key, prompt)" by (cases kp)
  show ?case
  proof (cases "Type prompt = AuthPromptTypePassword \<or> key = ''username''")
    case True
    then show ?thesis using Cons.IH by (auto simp: kp)
  next
    case False
    let ?p = "DisplayTextPrompt e (DisplayName prompt) s"
    have a: "adds collectEvent s (snd ?p)"
      by (rule adds_collect_DisplayTextPrompt)
    have sp: "since s (snd ?p) = [EvDisplayTextPrompt (DisplayName prompt) (fst ?p)]"
      by (rule since_DisplayTextPrompt)
    show ?thesis
    proof (cases "fst ?p")
      case (Inl err)
      then have "authenticate_range e (kp # rest) credentials keys s = (Inl err, snd ?p)"
        using False by (simp add: kp case_prod_beta)
      then show ?thesis using sp by simp
    next
      case (Inr v)
      let ?s1 = "emit EvDisplayNewline (snd ?p)"
      let ?k = "authenticate_range e rest (credentials(key \<mapsto> v)) keys ?s1"
      have eq: "authenticate_range e (kp # rest) credentials keys s = ?k"
        using Inr False by (simp add: kp case_prod_beta)
      have a1: "adds collectEvent s ?s1"
        using a by (simp add: adds_emit)
      have a2: "adds collectEvent ?s1 (snd ?k)"
        by (rule adds_authenticate_range) simp
      have s1: "since s ?s1 = [EvDisplayTextPrompt (DisplayName prompt) (fst ?p), EvDisplayNewline]"
        using since_emit [OF a] sp by simp
      have ih: "secretSteps (since ?s1 (snd ?k)) = []"
        by (rule Cons.IH)
      have "secretSteps (since s (snd ?k)) = []"
        unfolding since_trans [OF a1 a2] s1 using ih by simp
      then show ?thesis unfolding eq .
    qed
  qed
qed

lemma password_not_other: "''password'' \<notin> set (otherSecretKeys prompts)"
  by (auto simp: otherSecretKeys_def)

text \<open>The attempts of \<open>authenticate\<close> are those of its loop, which starts from the flags given.\<close>

lemma authenticate_attempts_since:
  "attempts (since s (snd (authenticate e s))) = [] \<or>
   (\<exists>c s2. cmd s2 = cmd s \<and>
      authenticate e s
        = authenticate_loop maxLoginTries e (Actor_GetLoginPrompts e)
            (otherSecretKeys (Actor_GetLoginPrompts e)) None c s2 \<and>
      attempts (since s (snd (authenticate e s)))
        = attempts (since s2 (snd (authenticate e s))))"
proof -
  let ?ps = "Actor_GetLoginPrompts e"
  let ?s0 = "emit EvGetLoginPrompts s"
  let ?u = "authenticate_username e ?ps ?s0"
  have a0: "adds authEvent s ?s0"
    by (simp add: adds_emit)
  have au: "adds authEvent ?s0 (snd ?u)"
    using adds_authenticate_username [of ?s0 ?s0 e ?ps] by (auto intro: adds_mono collect_auth)
  have asu: "adds authEvent s (snd ?u)"
    using a0 au by (rule adds_trans)
  have su: "secretSteps (since s (snd ?u)) = []"
    unfolding since_trans [OF a0 au] using secrets_authenticate_username [of ?s0 e ?ps]
    by (simp add: since_def)
  have cu: "cmd (snd ?u) = cmd s"
    using labels_authenticate_username [of ?s0 e ?ps] by simp
  show ?thesis
  proof (cases "fst ?u")
    case (Inl err)
    then have "snd (authenticate e s) = snd ?u"
      by (simp add: authenticate_def Let_def case_prod_beta)
    then show ?thesis using su by (simp add: attempts_def)
  next
    case (Inr c)
    let ?r = "authenticate_range e ?ps c [] (snd ?u)"
    have ar: "adds authEvent (snd ?u) (snd ?r)"
      using adds_authenticate_range [of "snd ?u" "snd ?u" e ?ps c "[]"]
      by (auto intro: adds_mono collect_auth)
    have asr: "adds authEvent s (snd ?r)"
      using asu ar by (rule adds_trans)
    have sr: "secretSteps (since s (snd ?r)) = []"
      unfolding since_trans [OF asu ar] using su secrets_authenticate_range [of "snd ?u" e ?ps c "[]"]
      by simp
    have lr: "cmd (snd ?r) = cmd (snd ?u)"
      "\<forall>c' ks. fst ?r = Inr (c', ks) \<longrightarrow>
         labels (since (snd ?u) (snd ?r)) = textLabels ?ps \<and> ks = [] @ otherSecretKeys ?ps"
      using labels_authenticate_range [of "snd ?u" e ?ps c "[]"] by simp_all
    show ?thesis
    proof (cases "fst ?r")
      case (Inl err)
      then have "snd (authenticate e s) = snd ?r"
        using Inr by (simp add: authenticate_def Let_def case_prod_beta)
      then show ?thesis using sr by (simp add: attempts_def)
    next
      case (Inr ck)
      then have ks: "snd ck = otherSecretKeys ?ps"
        using lr(2) by (cases ck) simp
      let ?l = "authenticate_loop maxLoginTries e ?ps (otherSecretKeys ?ps) None (fst ck) (snd ?r)"
      have eq: "authenticate e s = ?l"
        using Inr \<open>fst ?u = Inr c\<close> ks by (simp add: authenticate_def Let_def case_prod_beta)
      have al: "adds authEvent (snd ?r) (snd ?l)"
        by (rule adds_authenticate_loop) simp
      have "attempts (since s (snd ?l)) = attempts (since (snd ?r) (snd ?l))"
        unfolding since_trans [OF asr al] using sr by (rule attempts_skip)
      then have "attempts (since s (snd (authenticate e s))) = attempts (since (snd ?r) (snd (authenticate e s)))"
        unfolding eq .
      moreover have "cmd (snd ?r) = cmd s"
        using lr(1) cu by simp
      ultimately show ?thesis using eq by blast
    qed
  qed
qed

lemma authenticate_secret_once:
  assumes "map_of (Actor_GetLoginPrompts e) ''password'' = Some p"
  shows "list_all (promptedFirst (DisplayName p) ''password'')
     (if Password (cmd s) \<noteq> [] then tl (attempts (since s (snd (authenticate e s))))
      else attempts (since s (snd (authenticate e s)))) \<and>
   (Password (cmd s) \<noteq> [] \<and> attempts (since s (snd (authenticate e s))) \<noteq> [] \<longrightarrow>
      submits ''password'' (Password (cmd s)) (hd (attempts (since s (snd (authenticate e s))))) \<and>
      Password (cmd (snd (authenticate e s))) = [])"
proof -
  let ?ps = "Actor_GetLoginPrompts e"
  from authenticate_attempts_since [of s e]
  consider (none) "attempts (since s (snd (authenticate e s))) = []"
    | (loop) c s2 where "cmd s2 = cmd s"
        "authenticate e s = authenticate_loop maxLoginTries e ?ps (otherSecretKeys ?ps) None c s2"
        "attempts (since s (snd (authenticate e s))) = attempts (since s2 (snd (authenticate e s)))"
    by blast
  then show ?thesis
  proof cases
    case none
    then show ?thesis by simp
  next
    case loop
    show ?thesis
    proof (cases "Password (cmd s) \<noteq> []")
      case True
      then have "Password (cmd s2) \<noteq> []"
        using loop(1) by simp
      from authenticate_loop_supplied [OF assms password_not_other this, where n = maxLoginTries and e = e and err = None and credentials = c]
      show ?thesis using True loop by simp
    next
      case False
      then have "Password (cmd s2) = []"
        using loop(1) by simp
      from authenticate_loop_prompted [OF assms password_not_other this, where n = maxLoginTries and e = e and err = None and credentials = c]
      show ?thesis using False loop by simp
    qed
  qed
qed

text \<open>
  Claim C7. An attempt is a submission with the secret prompts that precede it. In the
  password flow, when the server asks for a password: with a password supplied, the
  first attempt submits the supplied value and the flag is empty from then on; every
  later attempt (every attempt, with no password supplied) begins with the password
  prompt and submits what was typed there. In the SSO flow, with a passcode supplied:
  the first attempt asks for nothing and submits the supplied passcode alone, the flag
  is empty from then on, and every later attempt (every attempt, with no passcode
  supplied) begins with the passcode prompt and submits what was typed there.
\<close>

theorem supplied_secret_used_once:
  "(map_of (Actor_GetLoginPrompts e) ''password'' = Some p \<longrightarrow>
      list_all (promptedFirst (DisplayName p) ''password'')
        (if Password (cmd s) \<noteq> [] then tl (attempts (since s (snd (authenticate e s))))
         else attempts (since s (snd (authenticate e s)))) \<and>
      (Password (cmd s) \<noteq> [] \<and> attempts (since s (snd (authenticate e s))) \<noteq> [] \<longrightarrow>
         submits ''password'' (Password (cmd s)) (hd (attempts (since s (snd (authenticate e s))))) \<and>
         Password (cmd (snd (authenticate e s))) = [])) \<and>
   list_all (promptedFirst (promptDisplayName (Actor_GetLoginPrompts e) ''passcode'') ''passcode'')
     (if SSOPasscode (cmd s) \<noteq> [] then tl (attempts (since s (snd (authenticateSSO e s))))
      else attempts (since s (snd (authenticateSSO e s)))) \<and>
   (SSOPasscode (cmd s) \<noteq> [] \<and> attempts (since s (snd (authenticateSSO e s))) \<noteq> [] \<longrightarrow>
      hd (attempts (since s (snd (authenticateSSO e s)))) = ([], [''passcode'' \<mapsto> SSOPasscode (cmd s)]) \<and>
      SSOPasscode (cmd (snd (authenticateSSO e s))) = [])"
  using authenticate_secret_once [of e p s] authenticateSSO_secret_once [of e s]
  by blast


theorem supplied_secret_used_once_witness:
  "length (attempts (since demo_state (snd (authenticate demo_env demo_state)))) = 2 \<and>
   submits ''password'' ''pw1'' (hd (attempts (since demo_state (snd (authenticate demo_env demo_state))))) \<and>
   list_all (promptedFirst ''Password'' ''password'')
     (tl (attempts (since demo_state (snd (authenticate demo_env demo_state))))) \<and>
   Password (cmd (snd (authenticate demo_env demo_state))) = [] \<and>
   length (attempts (since (demo_state\<lparr>cmd := demo_cmd\<lparr>SSOPasscode := ''abc''\<rparr>\<rparr>)
      (snd (authenticateSSO demo_env (demo_state\<lparr>cmd := demo_cmd\<lparr>SSOPasscode := ''abc''\<rparr>\<rparr>))))) = 3 \<and>
   hd (attempts (since (demo_state\<lparr>cmd := demo_cmd\<lparr>SSOPasscode := ''abc''\<rparr>\<rparr>)
      (snd (authenticateSSO demo_env (demo_state\<lparr>cmd := demo_cmd\<lparr>SSOPasscode := ''abc''\<rparr>\<rparr>)))))
     = ([], [''passcode'' \<mapsto> ''abc'']) \<and>
   list_all (promptedFirst [] ''passcode'')
     (tl (attempts (since (demo_state\<lparr>cmd := demo_cmd\<lparr>SSOPasscode := ''abc''\<rparr>\<rparr>)
        (snd (authenticateSSO demo_env (demo_state\<lparr>cmd := demo_cmd\<lparr>SSOPasscode := ''abc''\<rparr>\<rparr>))))))"
proof -
  let ?p = "\<lparr>Type = AuthPromptTypePassword, DisplayName = ''Password''\<rparr>"
  let ?s = "demo_state\<lparr>cmd := demo_cmd\<lparr>SSOPasscode := ''abc''\<rparr>\<rparr>"
  have m: "map_of (Actor_GetLoginPrompts demo_env) ''password'' = Some ?p"
    by (simp add: demo_env_def demo_prompts_def)
  have n: "promptDisplayName (Actor_GetLoginPrompts demo_env) ''passcode'' = []"
    by (simp add: demo_env_def demo_prompts_def promptDisplayName_def)
  have f: "Password (cmd demo_state) = ''pw1''" "SSOPasscode (cmd ?s) = ''abc''"
    by (simp_all add: demo_state_def demo_cmd_def)
  have a: "length (attempts (since demo_state (snd (authenticate demo_env demo_state)))) = 2"
    by (simp add: exec_defs demo_defs since_def attempts_def eval_nat_numeral)
  have b: "length (attempts (since ?s (snd (authenticateSSO demo_env ?s)))) = 3"
    by (simp add: exec_defs demo_defs since_def attempts_def eval_nat_numeral)
  have a': "attempts (since demo_state (snd (authenticate demo_env demo_state))) \<noteq> []"
    using a by auto
  have b': "attempts (since ?s (snd (authenticateSSO demo_env ?s))) \<noteq> []"
    using b by auto
  show ?thesis
    using supplied_secret_used_once [of demo_env ?p demo_state]
      supplied_secret_used_once [of demo_env ?p ?s] m n f a b a' b'
    by simp
qed

end
